theory Spec2Isabelle
  imports Main "HOL-Library.Sublist"
begin

section \<open>Strings and characters\<close>

text \<open>
  A JavaScript string is modelled as a \<^typ>\<open>string\<close>: a list of characters, one
  \<^typ>\<open>char\<close> per code unit. \<^typ>\<open>char\<close> has 256 values, so the model covers the
  strings whose code units are below 256 (ASCII and Latin-1); \<open>length\<close> is the
  string's \<^verbatim>\<open>.length\<close>.
\<close>

definition LF :: char where "LF = CHR 0x0A"
definition CR :: char where "CR = CHR 0x0D"

text \<open>White space as \<^verbatim>\<open>String.prototype.trim\<close> and the class \<^verbatim>\<open>\s\<close> see it: tab, line
  feed, vertical tab, form feed, carriage return, space and no-break space.\<close>

definition isSpace :: "char \<Rightarrow> bool" where
  "isSpace c = (c \<in> {CHR 0x09, CHR 0x0A, CHR 0x0B, CHR 0x0C, CHR 0x0D, CHR 0x20, CHR 0xA0})"

definition inRange :: "char \<Rightarrow> char \<Rightarrow> char \<Rightarrow> bool" where
  "inRange a b x = ((of_char a :: nat) \<le> of_char x \<and> (of_char x :: nat) \<le> of_char b)"

definition isAlnum :: "char \<Rightarrow> bool" where
  "isAlnum c = (inRange CHR ''a'' CHR ''z'' c \<or> inRange CHR ''A'' CHR ''Z'' c \<or> inRange CHR ''0'' CHR ''9'' c)"

text \<open>The class \<^verbatim>\<open>\w\<close>.\<close>

definition isWord :: "char \<Rightarrow> bool" where
  "isWord c = (isAlnum c \<or> c = CHR ''_'')"

text \<open>\<^verbatim>\<open>toUpperCase\<close> and \<^verbatim>\<open>toLowerCase\<close> on one code unit below 256. The sharp s, the
  micro sign and y with diaeresis have no upper-case form below 256 and stay.\<close>

definition toUpper :: "char \<Rightarrow> char" where
  "toUpper c = (let n = (of_char c :: nat) in
     if (97 \<le> n \<and> n \<le> 122) \<or> (224 \<le> n \<and> n \<le> 254 \<and> n \<noteq> 247) then char_of (n - 32) else c)"

definition toLower :: "char \<Rightarrow> char" where
  "toLower c = (let n = (of_char c :: nat) in
     if (65 \<le> n \<and> n \<le> 90) \<or> (192 \<le> n \<and> n \<le> 222 \<and> n \<noteq> 215) then char_of (n + 32) else c)"

definition toLowerCase :: "string \<Rightarrow> string" where
  "toLowerCase s = map toLower s"

text \<open>\<^verbatim>\<open>s.trim()\<close>, and the truth value of a string in a condition.\<close>

definition trimStart :: "string \<Rightarrow> string" where
  "trimStart s = dropWhile isSpace s"

definition trimEnd :: "string \<Rightarrow> string" where
  "trimEnd s = rev (dropWhile isSpace (rev s))"

definition trim :: "string \<Rightarrow> string" where
  "trim s = trimEnd (trimStart s)"

definition truthy :: "string \<Rightarrow> bool" where
  "truthy s = (s \<noteq> [])"

text \<open>\<^verbatim>\<open>s.split('\n')\<close>: the lines of \<open>s\<close>; the empty string has the one line \<open>''''\<close>.\<close>

fun split_lines :: "string \<Rightarrow> string list" where
  "split_lines [] = ['''']"
| "split_lines (x # xs) =
     (if x = LF then [] # split_lines xs
      else (case split_lines xs of [] \<Rightarrow> [x # ''''] | l # ls \<Rightarrow> (x # l) # ls))"

text \<open>\<^verbatim>\<open>xs.join(sep)\<close>.\<close>

fun join :: "string \<Rightarrow> string list \<Rightarrow> string" where
  "join sep [] = []"
| "join sep [x] = x"
| "join sep (x # y # ys) = x @ sep @ join sep (y # ys)"

text \<open>\<^verbatim>\<open>s.startsWith(p)\<close> and \<^verbatim>\<open>s.includes(p)\<close>.\<close>

definition startsWith :: "string \<Rightarrow> string \<Rightarrow> bool" where
  "startsWith s p = (take (length p) s = p)"

fun str_includes :: "string \<Rightarrow> string \<Rightarrow> bool" where
  "str_includes [] p = (p = [])"
| "str_includes (x # xs) p = (startsWith (x # xs) p \<or> str_includes xs p)"

section \<open>Regular expressions\<close>

text \<open>
  The regular expressions of the program are values of \<open>regex\<close>; \<open>rmatch\<close> runs one at
  the start of a string the way the ECMAScript matcher does: by backtracking, the
  alternatives of a choice in their order, a greedy star trying the longest run first,
  a lazy star the shortest. Only character classes are starred in this program.
\<close>

datatype cclass =
    Lit char
  | Dot
  | Space
  | Word
  | Range char char
  | OneOf "char list"
  | Neg cclass
  | Or cclass cclass
  | NoCase cclass

fun cmatch :: "cclass \<Rightarrow> char \<Rightarrow> bool" where
  "cmatch (Lit c) x = (x = c)"
| "cmatch Dot x = (x \<noteq> LF \<and> x \<noteq> CR)"
| "cmatch Space x = isSpace x"
| "cmatch Word x = isWord x"
| "cmatch (Range a b) x = inRange a b x"
| "cmatch (OneOf cs) x = (x \<in> set cs)"
| "cmatch (Neg cl) x = (\<not> cmatch cl x)"
| "cmatch (Or a b) x = (cmatch a x \<or> cmatch b x)"
| "cmatch (NoCase cl) x = (cmatch cl x \<or> cmatch cl (toUpper x) \<or> cmatch cl (toLower x))"

datatype regex =
    Chr cclass
  | Star cclass
  | LazyStar cclass
  | Eps
  | Seq regex regex
  | Alt regex regex
  | Group nat regex

definition Plus :: "cclass \<Rightarrow> regex" where
  "Plus cl = Seq (Chr cl) (Star cl)"

definition Opt :: "regex \<Rightarrow> regex" where
  "Opt r = Alt r Eps"

text \<open>A literal word, character by character.\<close>

fun lits :: "string \<Rightarrow> regex" where
  "lits [] = Eps"
| "lits (c # cs) = Seq (Chr (Lit c)) (lits cs)"

text \<open>What is left to match: a regular expression, or the end of capture group \<open>n\<close>
  that was entered with the input \<open>s0\<close> left.\<close>

datatype frame = R regex | Close nat string

type_synonym captures = "nat \<rightharpoonup> string"

fun rsize :: "regex \<Rightarrow> nat" where
  "rsize (Seq a b) = Suc (rsize a + rsize b)"
| "rsize (Alt a b) = Suc (rsize a + rsize b)"
| "rsize (Group n a) = Suc (Suc (rsize a))"
| "rsize r = 1"

fun fsize :: "frame \<Rightarrow> nat" where
  "fsize (R r) = rsize r"
| "fsize (Close n s0) = 1"

function rmatch :: "frame list \<Rightarrow> string \<Rightarrow> captures \<Rightarrow> (string \<times> captures) option" where
  "rmatch [] s c = Some (s, c)"
| "rmatch (R (Chr cl) # k) [] c = None"
| "rmatch (R (Chr cl) # k) (x # xs) c = (if cmatch cl x then rmatch k xs c else None)"
| "rmatch (R (Star cl) # k) [] c = rmatch k [] c"
| "rmatch (R (Star cl) # k) (x # xs) c =
     (if cmatch cl x
      then (case rmatch (R (Star cl) # k) xs c of
              Some r \<Rightarrow> Some r
            | None \<Rightarrow> rmatch k (x # xs) c)
      else rmatch k (x # xs) c)"
| "rmatch (R (LazyStar cl) # k) [] c = rmatch k [] c"
| "rmatch (R (LazyStar cl) # k) (x # xs) c =
     (case rmatch k (x # xs) c of
        Some r \<Rightarrow> Some r
      | None \<Rightarrow> if cmatch cl x then rmatch (R (LazyStar cl) # k) xs c else None)"
| "rmatch (R Eps # k) s c = rmatch k s c"
| "rmatch (R (Seq a b) # k) s c = rmatch (R a # R b # k) s c"
| "rmatch (R (Alt a b) # k) s c =
     (case rmatch (R a # k) s c of Some r \<Rightarrow> Some r | None \<Rightarrow> rmatch (R b # k) s c)"
| "rmatch (R (Group n a) # k) s c = rmatch (R a # Close n s # k) s c"
| "rmatch (Close n s0 # k) s c = rmatch k s (c(n \<mapsto> take (length s0 - length s) s0))"
  by pat_completeness auto
termination
  by (relation "measures [\<lambda>(k, s, c). sum_list (map fsize k), \<lambda>(k, s, c). length s]") auto

text \<open>One match: the text matched, the input after it and the capture groups.\<close>

record rmatch_result =
  matched :: string
  rest :: string
  groups :: captures

definition exec_at :: "regex \<Rightarrow> string \<Rightarrow> rmatch_result option" where
  "exec_at r s =
     (case rmatch [R r] s Map.empty of None \<Rightarrow> None
      | Some (s', c) \<Rightarrow> Some \<lparr>matched = take (length s - length s') s, rest = s', groups = c\<rparr>)"

text \<open>The leftmost match of \<open>r\<close> in \<open>s\<close>: every start position in turn, the end of the
  string included.\<close>

fun search :: "regex \<Rightarrow> string \<Rightarrow> rmatch_result option" where
  "search r [] = exec_at r []"
| "search r (x # xs) = (case exec_at r (x # xs) of Some m \<Rightarrow> Some m | None \<Rightarrow> search r xs)"

text \<open>\<^verbatim>\<open>re.test(s)\<close> for an expression without the \<^verbatim>\<open>g\<close> flag.\<close>

definition test :: "regex \<Rightarrow> string \<Rightarrow> bool" where
  "test r s = (search r s \<noteq> None)"

text \<open>\<^verbatim>\<open>s.matchAll(re)\<close> and \<^verbatim>\<open>s.match(re)\<close> with the \<^verbatim>\<open>g\<close> flag: the matches from left to
  right, each search starting where the last match ended, one character further after
  an empty match.\<close>

function matchAll :: "regex \<Rightarrow> string \<Rightarrow> rmatch_result list" where
  "matchAll r [] = (case exec_at r [] of Some m \<Rightarrow> [m] | None \<Rightarrow> [])"
| "matchAll r (x # xs) =
     (case exec_at r (x # xs) of
        Some m \<Rightarrow>
          m # (if length (rest m) < length (x # xs) then matchAll r (rest m)
               else matchAll r xs)
      | None \<Rightarrow> matchAll r xs)"
  by pat_completeness auto
termination
  by (relation "measure (\<lambda>(r, s). length s)") auto

text \<open>\<^verbatim>\<open>s.replace(re, rep)\<close> with the \<^verbatim>\<open>g\<close> flag and a replacement text without
  \<^verbatim>\<open>$\<close>.\<close>

function replace_g :: "regex \<Rightarrow> string \<Rightarrow> string \<Rightarrow> string" where
  "replace_g r rep [] = (case exec_at r [] of Some m \<Rightarrow> rep | None \<Rightarrow> [])"
| "replace_g r rep (x # xs) =
     (case exec_at r (x # xs) of
        Some m \<Rightarrow>
          rep @ (if length (rest m) < length (x # xs) then replace_g r rep (rest m)
                 else x # replace_g r rep xs)
      | None \<Rightarrow> x # replace_g r rep xs)"
  by pat_completeness auto
termination
  by (relation "measure (\<lambda>(r, rep, s). length s)") auto

subsection \<open>Regular expressions built from a string\<close>

text \<open>
  \<^verbatim>\<open>new RegExp(src, flags)\<close> compiles a string. The model compiles the sources made of
  plain characters, \<^verbatim>\<open>.\<close>, classes \<^verbatim>\<open>[...]\<close> and \<^verbatim>\<open>[^...]\<close> of plain characters, and
  \<^verbatim>\<open>*\<close> after one of these. For any other source the result is \<open>RegExpError\<close>:
  JavaScript throws \<^verbatim>\<open>SyntaxError\<close> there, or builds an expression outside this model.
  \<open>UndefinedCapture\<close> is the use, as a string, of a capture group that took no part in
  the match: JavaScript has \<^verbatim>\<open>undefined\<close> there and raises \<^verbatim>\<open>TypeError\<close> when a method
  is called on it.
\<close>

datatype error = RegExpError string | UndefinedCapture

datatype token = TAtom cclass | TStar

definition backslash :: char where "backslash = CHR 0x5C"

definition metachars :: "char list" where
  "metachars = backslash # ''^$+?()]{}|''"

definition fold_case :: "bool \<Rightarrow> cclass \<Rightarrow> cclass" where
  "fold_case ignoreCase cl = (if ignoreCase then NoCase cl else cl)"

definition mk_class :: "bool \<Rightarrow> bool \<Rightarrow> char list \<Rightarrow> cclass" where
  "mk_class ignoreCase negated cs =
     (if negated then Neg (fold_case ignoreCase (OneOf cs)) else fold_case ignoreCase (OneOf cs))"

fun tokens :: "bool \<Rightarrow> string \<Rightarrow> token list option"
  and class_tokens :: "bool \<Rightarrow> bool \<Rightarrow> char list \<Rightarrow> string \<Rightarrow> token list option" where
  "tokens ci [] = Some []"
| "tokens ci (c # s) =
     (if c = CHR ''.'' then map_option ((#) (TAtom Dot)) (tokens ci s)
      else if c = CHR ''*'' then map_option ((#) TStar) (tokens ci s)
      else if c = CHR ''['' then
        (case s of [] \<Rightarrow> None
         | d # s' \<Rightarrow> if d = CHR ''^'' then class_tokens ci True [] s' else class_tokens ci False [] s)
      else if c \<in> set metachars then None
      else map_option ((#) (TAtom (fold_case ci (Lit c)))) (tokens ci s))"
| "class_tokens ci negated acc [] = None"
| "class_tokens ci negated acc (c # s) =
     (if c = CHR '']'' then map_option ((#) (TAtom (mk_class ci negated acc))) (tokens ci s)
      else if c = backslash \<or> c = CHR ''-'' \<or> c = CHR ''['' then None
      else class_tokens ci negated (acc @ [c]) s)"

fun build :: "token list \<Rightarrow> regex option" where
  "build [] = Some Eps"
| "build (TAtom a # TStar # ts) = map_option (Seq (Star a)) (build ts)"
| "build (TAtom a # ts) = map_option (Seq (Chr a)) (build ts)"
| "build (TStar # ts) = None"

definition RegExp :: "string \<Rightarrow> bool \<Rightarrow> error + regex" where
  "RegExp src ignoreCase =
     (case tokens ignoreCase src of None \<Rightarrow> Inl (RegExpError src)
      | Some ts \<Rightarrow> (case build ts of None \<Rightarrow> Inl (RegExpError src) | Some r \<Rightarrow> Inr r))"

section \<open>The knowledge extractor: which files are processed\<close>

record LanguageConfig =
  extensions :: "string list"
  commentPatterns :: "string list"
  importPatterns :: "string list"
  functionPatterns :: "string list"
  classPatterns :: "string list"

record ExtractionConfig =
  includePatterns :: "string list"
  excludePatterns :: "string list"
  languageConfigs :: "(string \<times> LanguageConfig) list"

text \<open>The configuration the constructor of \<^verbatim>\<open>KnowledgeExtractor\<close> stores.\<close>

definition default_config :: ExtractionConfig where
  "default_config = \<lparr>
     includePatterns =
       [''**/*.js'', ''**/*.jsx'', ''**/*.ts'', ''**/*.tsx'',
        ''**/*.py'', ''**/*.java'', ''**/*.go'', ''**/*.rs'',
        ''**/*.cpp'', ''**/*.c'', ''**/*.h'', ''**/*.hpp'',
        ''**/*.php'', ''**/*.rb'', ''**/*.swift'', ''**/*.kt'',
        ''**/*.md'', ''**/*.yaml'', ''**/*.yml'', ''**/*.json'',
        ''**/*.sql'', ''**/*.sh'', ''**/*.dockerfile'',
        ''**/README*'', ''**/CHANGELOG*'', ''**/API*''],
     excludePatterns =
       [''**/node_modules/**'',
        ''**/dist/**'',
        ''**/build/**'',
        ''**/.git/**'',
        ''**/coverage/**'',
        ''**/*.min.js'',
        ''**/*.bundle.js'',
        ''**/vendor/**'',
        ''**/third_party/**''],
     languageConfigs =
       [(''javascript'', \<lparr>
           extensions = [''.js'', ''.jsx''],
           commentPatterns = [''//'', ''/*'', ''*/'', ''/**''],
           importPatterns = [''import'', ''require'', ''from''],
           functionPatterns = [''function'', ''=>'', ''async function''],
           classPatterns = [''class'', ''extends'']\<rparr>),
        (''typescript'', \<lparr>
           extensions = [''.ts'', ''.tsx''],
           commentPatterns = [''//'', ''/*'', ''*/'', ''/**''],
           importPatterns = [''import'', ''require'', ''from''],
           functionPatterns = [''function'', ''=>'', ''async function''],
           classPatterns = [''class'', ''extends'', ''interface'', ''type'']\<rparr>),
        (''python'', \<lparr>
           extensions = [''.py''],
           commentPatterns = [''#'', [CHR 0x22, CHR 0x22, CHR 0x22], [CHR 0x27, CHR 0x27, CHR 0x27]],
           importPatterns = [''import'', ''from''],
           functionPatterns = [''def '', ''async def''],
           classPatterns = [''class '']\<rparr>),
        (''markdown'', \<lparr>
           extensions = [''.md''],
           commentPatterns = [''<!--'', ''-->''],
           importPatterns = [],
           functionPatterns = [],
           classPatterns = []\<rparr>)]\<rparr>"

text \<open>\<^verbatim>\<open>matchesPattern\<close>: the three replacements run one after the other, each on the
  result of the one before, and the result is searched for in the path.\<close>

definition glob_to_regex :: "string \<Rightarrow> string" where
  "glob_to_regex pattern =
     replace_g (lits ''?'') ''.''
       (replace_g (lits ''*'') ''[^/]*''
         (replace_g (lits ''**'') ''.*'' pattern))"

definition matchesPattern :: "string \<Rightarrow> string \<Rightarrow> error + bool" where
  "matchesPattern filePath pattern =
     (case RegExp (glob_to_regex pattern) False of
        Inl e \<Rightarrow> Inl e
      | Inr r \<Rightarrow> Inr (test r filePath))"

text \<open>The loop \<^verbatim>\<open>for (const pattern of patterns) if (this.matchesPattern(filePath, pattern)) return ...\<close>:
  \<open>Inr True\<close> when it reaches its \<^verbatim>\<open>return\<close>, \<open>Inr False\<close> when it runs to its end.\<close>

fun matches_some :: "string \<Rightarrow> string list \<Rightarrow> error + bool" where
  "matches_some filePath [] = Inr False"
| "matches_some filePath (pattern # patterns) =
     (case matchesPattern filePath pattern of
        Inl e \<Rightarrow> Inl e
      | Inr b \<Rightarrow> if b then Inr True else matches_some filePath patterns)"

definition shouldProcessFile :: "ExtractionConfig \<Rightarrow> string \<Rightarrow> error + bool" where
  "shouldProcessFile config filePath =
     (case matches_some filePath (excludePatterns config) of
        Inl e \<Rightarrow> Inl e
      | Inr excluded \<Rightarrow>
          if excluded then Inr False
          else matches_some filePath (includePatterns config))"

text \<open>\<^verbatim>\<open>generateId\<close>.\<close>

definition not_alnum :: regex where
  "not_alnum = Chr (Neg (Or (Range CHR ''a'' CHR ''z'') (Or (Range CHR ''A'' CHR ''Z'') (Range CHR ''0'' CHR ''9''))))"

definition generateId :: "string \<Rightarrow> string \<Rightarrow> string" where
  "generateId repository filePath =
     (let cleanRepo = replace_g not_alnum ''_'' repository;
          cleanPath = replace_g not_alnum ''_'' filePath
      in cleanRepo @ ''_'' @ cleanPath)"

section \<open>The knowledge extractor: content analysis\<close>

text \<open>The value of \<^verbatim>\<open>match[n]\<close> used as a string.\<close>

definition group :: "rmatch_result \<Rightarrow> nat \<Rightarrow> error + string" where
  "group m n = (case groups m n of None \<Rightarrow> Inl UndefinedCapture | Some g \<Rightarrow> Inr g)"

text \<open>\<^verbatim>\<open>a || b\<close> on values that are a string or \<^verbatim>\<open>undefined\<close>/\<^verbatim>\<open>null\<close>, and the truth
  value of such a value.\<close>

definition js_or :: "string option \<Rightarrow> string option \<Rightarrow> string option" where
  "js_or a b = (case a of None \<Rightarrow> b | Some g \<Rightarrow> if truthy g then Some g else b)"

definition truthy_opt :: "string option \<Rightarrow> bool" where
  "truthy_opt v = (case v of None \<Rightarrow> False | Some g \<Rightarrow> truthy g)"

definition str_or :: "string option \<Rightarrow> string \<Rightarrow> string" where
  "str_or v d = (case v of None \<Rightarrow> d | Some g \<Rightarrow> if truthy g then g else d)"

text \<open>The loop \<^verbatim>\<open>for (const match of matches) xs.push(f(match))\<close>.\<close>

fun push_all :: "(rmatch_result \<Rightarrow> error + string) \<Rightarrow> rmatch_result list \<Rightarrow> error + string list" where
  "push_all f [] = Inr []"
| "push_all f (m # ms) =
     (case f m of Inl e \<Rightarrow> Inl e
      | Inr g \<Rightarrow> (case push_all f ms of Inl e \<Rightarrow> Inl e | Inr gs \<Rightarrow> Inr (g # gs)))"

text \<open>\<^verbatim>\<open>[...new Set(xs)]\<close>: the first occurrence of each element, in order.\<close>

definition unique :: "string list \<Rightarrow> string list" where
  "unique xs = foldl (\<lambda>acc x. if x \<in> set acc then acc else acc @ [x]) [] xs"

text \<open>A number in a template literal.\<close>

function digits :: "nat \<Rightarrow> string" where
  "digits n = (if n < 10 then [char_of (48 + n)] else digits (n div 10) @ [char_of (48 + n mod 10)])"
  by pat_completeness auto
termination
  by (relation "measure (\<lambda>n. n)") auto

definition quote :: cclass where
  "quote = OneOf [CHR 0x27, CHR 0x22, CHR 0x60]"

text \<open>\<^verbatim>\<open>/import.*?from\s+['"`]([^'"`]+)['"`]/g\<close>\<close>

definition re_import_from :: regex where
  "re_import_from =
     Seq (lits ''import'') (Seq (LazyStar Dot) (Seq (lits ''from'') (Seq (Plus Space)
       (Seq (Chr quote) (Seq (Group 1 (Plus (Neg quote))) (Chr quote))))))"

text \<open>\<^verbatim>\<open>/(?:from\s+(\S+)\s+import|import\s+(\S+))/g\<close>\<close>

definition re_python_import :: regex where
  "re_python_import =
     Alt (Seq (lits ''from'') (Seq (Plus Space) (Seq (Group 1 (Plus (Neg Space)))
            (Seq (Plus Space) (lits ''import'')))))
         (Seq (lits ''import'') (Seq (Plus Space) (Group 2 (Plus (Neg Space)))))"

text \<open>\<^verbatim>\<open>/import\s+([\w.]+);/g\<close>\<close>

definition re_java_import :: regex where
  "re_java_import =
     Seq (lits ''import'') (Seq (Plus Space)
       (Seq (Group 1 (Plus (Or Word (Lit CHR ''.'')))) (Chr (Lit CHR '';''))))"

definition extractDependencies :: "string \<Rightarrow> error + string list" where
  "extractDependencies content =
     (case push_all (\<lambda>m. group m 1) (matchAll re_import_from content) of
        Inl e \<Rightarrow> Inl e
      | Inr importMatches \<Rightarrow>
     (case push_all (\<lambda>m. case js_or (groups m 1) (groups m 2) of
                             None \<Rightarrow> Inl UndefinedCapture | Some g \<Rightarrow> Inr g)
             (matchAll re_python_import content) of
        Inl e \<Rightarrow> Inl e
      | Inr pythonImports \<Rightarrow>
     (case push_all (\<lambda>m. group m 1) (matchAll re_java_import content) of
        Inl e \<Rightarrow> Inl e
      | Inr javaImports \<Rightarrow> Inr (unique (importMatches @ pythonImports @ javaImports)))))"

definition extractImports :: "string \<Rightarrow> error + string list" where
  "extractImports content = extractDependencies content"

text \<open>\<^verbatim>\<open>/export\s+(?:default\s+)?(?:function\s+|class\s+|const\s+|let\s+|var\s+)?(\w+)/g\<close>\<close>

definition re_export :: regex where
  "re_export =
     Seq (lits ''export'') (Seq (Plus Space)
       (Seq (Opt (Seq (lits ''default'') (Plus Space)))
         (Seq (Opt (Alt (Seq (lits ''function'') (Plus Space))
                   (Alt (Seq (lits ''class'') (Plus Space))
                   (Alt (Seq (lits ''const'') (Plus Space))
                   (Alt (Seq (lits ''let'') (Plus Space))
                        (Seq (lits ''var'') (Plus Space)))))))
           (Group 1 (Plus Word)))))"

definition extractExports :: "string \<Rightarrow> error + string list" where
  "extractExports content = push_all (\<lambda>m. group m 1) (matchAll re_export content)"

text \<open>\<^verbatim>\<open>/(?:function\s+(\w+)|(\w+)\s*=\s*(?:async\s+)?(?:\([^)]*\)|\w+)\s*=>|(\w+):\s*(?:async\s+)?\([^)]*\)\s*=>)/g\<close>\<close>

definition re_params :: regex where
  "re_params = Seq (Chr (Lit CHR ''('')) (Seq (Star (Neg (Lit CHR '')''))) (Chr (Lit CHR '')'')))"

definition re_js_function :: regex where
  "re_js_function =
     Alt (Seq (lits ''function'') (Seq (Plus Space) (Group 1 (Plus Word))))
    (Alt (Seq (Group 2 (Plus Word)) (Seq (Star Space) (Seq (Chr (Lit CHR ''='')) (Seq (Star Space)
            (Seq (Opt (Seq (lits ''async'') (Plus Space)))
              (Seq (Alt re_params (Plus Word)) (Seq (Star Space) (lits ''=>''))))))))
         (Seq (Group 3 (Plus Word)) (Seq (Chr (Lit CHR '':'')) (Seq (Star Space)
            (Seq (Opt (Seq (lits ''async'') (Plus Space)))
              (Seq re_params (Seq (Star Space) (lits ''=>''))))))))"

text \<open>\<^verbatim>\<open>/def\s+(\w+)\s*\(/g\<close>\<close>

definition re_py_function :: regex where
  "re_py_function =
     Seq (lits ''def'') (Seq (Plus Space) (Seq (Group 1 (Plus Word))
       (Seq (Star Space) (Chr (Lit CHR ''('')))))"

text \<open>The first loop of \<^verbatim>\<open>extractFunctions\<close> pushes a name only when it is truthy.\<close>

fun js_function_names :: "rmatch_result list \<Rightarrow> string list" where
  "js_function_names [] = []"
| "js_function_names (m # ms) =
     (let funcName = js_or (js_or (groups m 1) (groups m 2)) (groups m 3)
      in (case funcName of
            None \<Rightarrow> js_function_names ms
          | Some g \<Rightarrow> if truthy g then g # js_function_names ms else js_function_names ms))"

definition extractFunctions :: "string \<Rightarrow> error + string list" where
  "extractFunctions content =
     (let jsFunctions = js_function_names (matchAll re_js_function content)
      in (case push_all (\<lambda>m. group m 1) (matchAll re_py_function content) of
            Inl e \<Rightarrow> Inl e
          | Inr pyFunctions \<Rightarrow> Inr (jsFunctions @ pyFunctions)))"

text \<open>\<^verbatim>\<open>/class\s+(\w+)/g\<close>, which \<^verbatim>\<open>extractClasses\<close> runs twice.\<close>

definition re_class :: regex where
  "re_class = Seq (lits ''class'') (Seq (Plus Space) (Group 1 (Plus Word)))"

definition class_scan :: "string \<Rightarrow> error + string list" where
  "class_scan content = push_all (\<lambda>m. group m 1) (matchAll re_class content)"

definition extractClasses :: "string \<Rightarrow> error + string list" where
  "extractClasses content =
     (case class_scan content of
        Inl e \<Rightarrow> Inl e
      | Inr jsClasses \<Rightarrow>
          (case class_scan content of
             Inl e \<Rightarrow> Inl e
           | Inr pyClasses \<Rightarrow> Inr (jsClasses @ pyClasses)))"

text \<open>\<^verbatim>\<open>/\/\*\*?([\s\S]*?)\*\//\<close> and \<^verbatim>\<open>/\n\s*\*/g\<close>\<close>

definition re_block_comment :: regex where
  "re_block_comment =
     Seq (lits ''/*'') (Seq (Opt (Chr (Lit CHR ''*'')))
       (Seq (Group 1 (LazyStar (Or Space (Neg Space)))) (lits ''*/'')))"

definition re_comment_margin :: regex where
  "re_comment_margin = Seq (Chr (Lit LF)) (Seq (Star Space) (Chr (Lit CHR ''*'')))"

text \<open>The loop of \<^verbatim>\<open>extractFirstComment\<close> over the lines.\<close>

fun comment_lines :: "string list \<Rightarrow> string list \<Rightarrow> string list" where
  "comment_lines commentLines [] = commentLines"
| "comment_lines commentLines (line # lines) =
     (let trimmed = trim line in
      if startsWith trimmed ''//'' then comment_lines (commentLines @ [trim (drop 2 trimmed)]) lines
      else if startsWith trimmed ''#'' then comment_lines (commentLines @ [trim (drop 1 trimmed)]) lines
      else if length trimmed > 0 then commentLines
      else comment_lines commentLines lines)"

definition extractFirstComment :: "string \<Rightarrow> error + string option" where
  "extractFirstComment content =
     (case search re_block_comment content of
        Some multilineMatch \<Rightarrow>
          (case group multilineMatch 1 of
             Inl e \<Rightarrow> Inl e
           | Inr g \<Rightarrow> Inr (Some (trim (replace_g re_comment_margin [LF] g))))
      | None \<Rightarrow>
          (let commentLines = comment_lines [] (split_lines content)
           in Inr (if length commentLines > 0 then Some (join '' '' commentLines) else None)))"

definition generateSummary :: "string \<Rightarrow> error + string" where
  "generateSummary content =
     (let lines = split_lines content in
      case extractFirstComment content of
        Inl e \<Rightarrow> Inl e
      | Inr firstComment \<Rightarrow>
          if truthy_opt firstComment then Inr (str_or firstComment [])
          else (let nonEmptyLines = filter (\<lambda>line. length (trim line) > 0) lines
                in Inr (take 200 (join '' '' (take 3 nonEmptyLines)))))"

text \<open>The expressions of \<^verbatim>\<open>calculateComplexity\<close>: a keyword, white space, an opening
  parenthesis; and \<^verbatim>\<open>/&&|\|\|/g\<close>.\<close>

definition re_keyword :: "string \<Rightarrow> regex" where
  "re_keyword kw = Seq (lits kw) (Seq (Star Space) (Chr (Lit CHR ''('')))"

definition re_logical :: regex where
  "re_logical = Alt (lits ''&&'') (lits ''||'')"

text \<open>\<^verbatim>\<open>(content.match(re) || []).length\<close>\<close>

definition count_matches :: "regex \<Rightarrow> string \<Rightarrow> nat" where
  "count_matches r content = length (matchAll r content)"

definition calculateComplexity :: "string \<Rightarrow> nat" where
  "calculateComplexity content =
     count_matches (re_keyword ''if'') content
     + count_matches (re_keyword ''for'') content
     + count_matches (re_keyword ''while'') content
     + count_matches (re_keyword ''switch'') content
     + count_matches (re_keyword ''catch'') content
     + count_matches re_logical content"

text \<open>\<^verbatim>\<open>detectFramework\<close>: the table and its two loops.\<close>

definition frameworks :: "(string \<times> string list) list" where
  "frameworks =
     [(''React'', [''import.*react'', ''from.*react'', ''useState'', ''useEffect'']),
      (''Vue'', [''import.*vue'', ''from.*vue'', ''createApp'', ''defineComponent'']),
      (''Angular'', [''@angular'', ''@Component'', ''@Injectable'']),
      (''Express'', [''express'', ''app.get'', ''app.post'', ''router'']),
      (''Next.js'', [''next/'', ''getServerSideProps'', ''getStaticProps'']),
      (''Django'', [''django'', ''models.Model'', ''views.'']),
      (''Flask'', [''flask'', ''app.route'', ''@app.route'']),
      (''Spring'', [''@SpringBootApplication'', ''@RestController'', ''@Service''])]"

fun some_pattern :: "string \<Rightarrow> string list \<Rightarrow> error + bool" where
  "some_pattern content [] = Inr False"
| "some_pattern content (pattern # patterns) =
     (case RegExp pattern True of
        Inl e \<Rightarrow> Inl e
      | Inr r \<Rightarrow> if test r content then Inr True else some_pattern content patterns)"

fun first_framework :: "string \<Rightarrow> (string \<times> string list) list \<Rightarrow> error + string option" where
  "first_framework content [] = Inr None"
| "first_framework content ((name, patterns) # fs) =
     (case some_pattern content patterns of
        Inl e \<Rightarrow> Inl e
      | Inr found \<Rightarrow> if found then Inr (Some name) else first_framework content fs)"

definition detectFramework :: "string \<Rightarrow> error + string option" where
  "detectFramework content = first_framework content frameworks"

section \<open>The engine: splitting content into chunks\<close>

definition maxChunkSize :: nat where
  "maxChunkSize = 1000"

text \<open>The loop of \<^verbatim>\<open>splitContent\<close> over the lines, with the chunks closed so far and
  the chunk being filled.\<close>

fun accumulate :: "string list \<Rightarrow> string \<Rightarrow> string list \<Rightarrow> string list \<times> string" where
  "accumulate chunks currentChunk [] = (chunks, currentChunk)"
| "accumulate chunks currentChunk (line # lines) =
     (if length currentChunk + length line > maxChunkSize \<and> length currentChunk > 0
      then accumulate (chunks @ [trim currentChunk]) line lines
      else accumulate chunks
             (currentChunk @ (if truthy currentChunk then [LF] else []) @ line) lines)"

text \<open>The chunks after the loop and the flush of the last chunk.\<close>

definition line_chunks :: "string \<Rightarrow> string list" where
  "line_chunks content =
     (case accumulate [] [] (split_lines content) of
        (chunks, currentChunk) \<Rightarrow>
          if truthy (trim currentChunk) then chunks @ [trim currentChunk] else chunks)"

definition splitContent :: "string \<Rightarrow> string list" where
  "splitContent content =
     (if length (line_chunks content) > 0 then line_chunks content else [content])"

section \<open>The knowledge extractor: building a knowledge item\<close>

record FileInfo =
  repository :: string
  filePath :: string
  content :: string
  lastModified :: int

record Analysis =
  language :: string
  framework :: "string option"
  dependencies :: "string list"
  imports' :: "string list"
  exports :: "string list"
  functions' :: "string list"
  classes :: "string list"
  mainFunction :: "string option"
  mainClass :: "string option"
  summary :: string
  complexity :: nat

record Metadata =
  repository :: string
  filePath :: string
  fileType :: string
  lastModified :: int
  contentHash :: string
  tags :: "string list"
  language :: string
  framework :: "string option"
  dependencies :: "string list"

record KnowledgeItem =
  item_id :: string
  title :: string
  content :: string
  metadata :: Metadata

text \<open>
  The functions of Node.js that the extractor calls, which are no part of the
  program: the MD5 digest in hexadecimal (\<^verbatim>\<open>createHash('md5').update(s).digest('hex')\<close>)
  and \<^verbatim>\<open>basename\<close> and \<^verbatim>\<open>extname\<close> of the \<^verbatim>\<open>path\<close> module. None of them raises on a
  string. \<^verbatim>\<open>extname\<close> returns the empty string or a string that starts with a dot, so
  the lookup \<^verbatim>\<open>typeMap[ext]\<close> of \<^verbatim>\<open>getFileType\<close> finds an entry of the table or
  nothing, never a property that every JavaScript object inherits.
\<close>

record node_lib =
  md5_hex :: "string \<Rightarrow> string"
  basename :: "string \<Rightarrow> string"
  extname :: "string \<Rightarrow> string"

definition typeMap :: "(string \<times> string) list" where
  "typeMap =
     [(''.js'', ''javascript''),
      (''.jsx'', ''javascript''),
      (''.ts'', ''typescript''),
      (''.tsx'', ''typescript''),
      (''.py'', ''python''),
      (''.java'', ''java''),
      (''.go'', ''go''),
      (''.rs'', ''rust''),
      (''.cpp'', ''cpp''),
      (''.c'', ''c''),
      (''.php'', ''php''),
      (''.rb'', ''ruby''),
      (''.swift'', ''swift''),
      (''.kt'', ''kotlin''),
      (''.md'', ''markdown''),
      (''.yaml'', ''yaml''),
      (''.yml'', ''yaml''),
      (''.json'', ''json''),
      (''.sql'', ''sql''),
      (''.sh'', ''shell'')]"

definition getFileType :: "node_lib \<Rightarrow> string \<Rightarrow> string" where
  "getFileType lib path =
     (let ext = toLowerCase (extname lib path)
      in str_or (map_of typeMap ext) ''unknown'')"

definition getLanguage :: "string \<Rightarrow> string" where
  "getLanguage type = type"

definition analyzeContent :: "string \<Rightarrow> string \<Rightarrow> error + Analysis" where
  "analyzeContent text type =
     (case detectFramework text of Inl e \<Rightarrow> Inl e | Inr fw \<Rightarrow>
     (case extractDependencies text of Inl e \<Rightarrow> Inl e | Inr deps \<Rightarrow>
     (case extractImports text of Inl e \<Rightarrow> Inl e | Inr imps \<Rightarrow>
     (case extractExports text of Inl e \<Rightarrow> Inl e | Inr exps \<Rightarrow>
     (case extractFunctions text of Inl e \<Rightarrow> Inl e | Inr funs \<Rightarrow>
     (case extractClasses text of Inl e \<Rightarrow> Inl e | Inr cls \<Rightarrow>
     (case generateSummary text of Inl e \<Rightarrow> Inl e | Inr summ \<Rightarrow>
        Inr \<lparr> Analysis.language = getLanguage type,
              Analysis.framework = fw,
              Analysis.dependencies = deps,
              imports' = imps,
              exports = exps,
              functions' = funs,
              classes = cls,
              mainFunction = (case funs of [] \<Rightarrow> None | f # _ \<Rightarrow> Some f),
              mainClass = (case cls of [] \<Rightarrow> None | c # _ \<Rightarrow> Some c),
              summary = summ,
              complexity = calculateComplexity text \<rparr>)))))))"

definition generateTitle :: "node_lib \<Rightarrow> string \<Rightarrow> Analysis \<Rightarrow> string" where
  "generateTitle lib path analysis =
     (let fileName = basename lib path in
      if truthy_opt (mainFunction analysis)
        then fileName @ '' - '' @ str_or (mainFunction analysis) ''null''
      else if truthy_opt (mainClass analysis)
        then fileName @ '' - '' @ str_or (mainClass analysis) ''null''
      else if length (exports analysis) > 0
        then fileName @ '' - '' @ join '', '' (take 2 (exports analysis))
      else fileName)"

definition generateTags :: "string \<Rightarrow> Analysis \<Rightarrow> string list" where
  "generateTags path analysis =
     unique
       ((if str_includes path ''test'' then [''test''] else [])
        @ (if str_includes path ''api'' then [''api''] else [])
        @ (if str_includes path ''component'' then [''component''] else [])
        @ (if str_includes path ''util'' then [''utility''] else [])
        @ (if str_includes path ''config'' then [''configuration''] else [])
        @ (if str_includes path ''service'' then [''service''] else [])
        @ (if str_includes path ''model'' then [''model''] else [])
        @ (if str_includes path ''controller'' then [''controller''] else [])
        @ (if truthy (Analysis.language analysis) then [Analysis.language analysis] else [])
        @ (if truthy_opt (Analysis.framework analysis)
           then [str_or (Analysis.framework analysis) ''undefined''] else [])
        @ (if length (functions' analysis) > 0 then [''functions''] else [])
        @ (if length (classes analysis) > 0 then [''classes''] else [])
        @ (if complexity analysis > 10 then [''complex''] else [])
        @ (if complexity analysis \<le> 3 then [''simple''] else [])
        @ concat (map (\<lambda>dep.
              (if str_includes dep ''react'' then [''react''] else [])
              @ (if str_includes dep ''express'' then [''express''] else [])
              @ (if str_includes dep ''typescript'' then [''typescript''] else []))
            (Analysis.dependencies analysis)))"

definition prepareContent :: "string \<Rightarrow> Analysis \<Rightarrow> string \<Rightarrow> string" where
  "prepareContent text analysis path =
     trim ([LF]
       @ ''File: '' @ path @ [LF]
       @ ''Language: '' @ Analysis.language analysis @ [LF]
       @ ''Framework: '' @ str_or (Analysis.framework analysis) ''None'' @ [LF]
       @ [LF]
       @ ''Summary: '' @ summary analysis @ [LF]
       @ [LF]
       @ ''Dependencies:'' @ [LF]
       @ join [LF] (map (\<lambda>dep. ''- '' @ dep) (Analysis.dependencies analysis)) @ [LF]
       @ [LF]
       @ ''Functions: '' @ join '', '' (functions' analysis) @ [LF]
       @ ''Classes: '' @ join '', '' (classes analysis) @ [LF]
       @ ''Complexity: '' @ digits (complexity analysis) @ [LF]
       @ [LF]
       @ ''Content:'' @ [LF]
       @ text @ [LF]
       @ ''    '')"

text \<open>\<^verbatim>\<open>extractKnowledge\<close>: \<open>Inr None\<close> is the value \<^verbatim>\<open>null\<close>, \<open>Inl\<close> an exception (a
  rejected promise).\<close>

definition extractKnowledge :: "node_lib \<Rightarrow> ExtractionConfig \<Rightarrow> FileInfo \<Rightarrow> error + KnowledgeItem option" where
  "extractKnowledge lib config fileInfo =
     (case shouldProcessFile config (FileInfo.filePath fileInfo) of
        Inl e \<Rightarrow> Inl e
      | Inr eligible \<Rightarrow>
          if \<not> eligible then Inr None
          else
            (let hash = md5_hex lib (FileInfo.content fileInfo);
                 type = getFileType lib (FileInfo.filePath fileInfo)
             in (case analyzeContent (FileInfo.content fileInfo) type of
                   Inl e \<Rightarrow> Inl e
                 | Inr analysis \<Rightarrow>
                     Inr (Some \<lparr>
                       item_id = generateId (FileInfo.repository fileInfo) (FileInfo.filePath fileInfo),
                       title = generateTitle lib (FileInfo.filePath fileInfo) analysis,
                       content = prepareContent (FileInfo.content fileInfo) analysis
                                   (FileInfo.filePath fileInfo),
                       metadata = \<lparr>
                         repository = FileInfo.repository fileInfo,
                         filePath = FileInfo.filePath fileInfo,
                         fileType = type,
                         lastModified = FileInfo.lastModified fileInfo,
                         contentHash = hash,
                         tags = generateTags (FileInfo.filePath fileInfo) analysis,
                         language = Analysis.language analysis,
                         framework = Analysis.framework analysis,
                         dependencies = Analysis.dependencies analysis \<rparr> \<rparr>))))"

section \<open>Capture groups: what a match defines\<close>

text \<open>\<open>rdef n r\<close>: every match of \<open>r\<close> goes through capture group \<open>n\<close>. \<open>rfree n r\<close>:
  \<open>r\<close> has no capture group \<open>n\<close>. \<open>post k Q\<close>: \<open>Q\<close> holds of the captures after every
  successful run of the frames \<open>k\<close>.\<close>

fun rdef :: "nat \<Rightarrow> regex \<Rightarrow> bool" where
  "rdef n (Group m a) = (m = n \<or> rdef n a)"
| "rdef n (Seq a b) = (rdef n a \<or> rdef n b)"
| "rdef n (Alt a b) = (rdef n a \<and> rdef n b)"
| "rdef n (Chr cl) = False"
| "rdef n (Star cl) = False"
| "rdef n (LazyStar cl) = False"
| "rdef n Eps = False"

fun fdef :: "nat \<Rightarrow> frame \<Rightarrow> bool" where
  "fdef n (R r) = rdef n r"
| "fdef n (Close m s0) = (m = n)"

fun rfree :: "nat \<Rightarrow> regex \<Rightarrow> bool" where
  "rfree n (Group m a) = (m \<noteq> n \<and> rfree n a)"
| "rfree n (Seq a b) = (rfree n a \<and> rfree n b)"
| "rfree n (Alt a b) = (rfree n a \<and> rfree n b)"
| "rfree n (Chr cl) = True"
| "rfree n (Star cl) = True"
| "rfree n (LazyStar cl) = True"
| "rfree n Eps = True"

fun ffree :: "nat \<Rightarrow> frame \<Rightarrow> bool" where
  "ffree n (R r) = rfree n r"
| "ffree n (Close m s0) = (m \<noteq> n)"

definition post :: "frame list \<Rightarrow> (captures \<Rightarrow> bool) \<Rightarrow> bool" where
  "post k Q = (\<forall>s c s' c'. rmatch k s c = Some (s', c') \<longrightarrow> Q c')"

definition nonempty_group :: "nat \<Rightarrow> captures \<Rightarrow> bool" where
  "nonempty_group n c = (\<exists>g. c n = Some g \<and> g \<noteq> [])"

section \<open>The complexity expressions in closed form\<close>

text \<open>What is left of a string after a match, at its start, of a keyword, white space
  and an opening parenthesis; and after \<^verbatim>\<open>&&\<close> or \<^verbatim>\<open>||\<close>.\<close>

definition keyword_rest :: "string \<Rightarrow> string \<Rightarrow> string option" where
  "keyword_rest kw s =
     (if prefix kw s
      then (case dropWhile isSpace (drop (length kw) s) of
              [] \<Rightarrow> None
            | y # ys \<Rightarrow> if y = CHR ''('' then Some ys else None)
      else None)"

definition logical_rest :: "string \<Rightarrow> string option" where
  "logical_rest s = (if prefix ''&&'' s \<or> prefix ''||'' s then Some (drop 2 s) else None)"

section \<open>Properties of the file filter\<close>

lemma matches_some_True:
  "\<forall>pat \<in> set pats. \<not> isl (matchesPattern p pat) \<Longrightarrow>
   \<exists>pat \<in> set pats. matchesPattern p pat = Inr True \<Longrightarrow>
   matches_some p pats = Inr True"
proof (induction pats)
  case Nil
  then show ?case by simp
next
  case (Cons a pats)
  show ?case
  proof (cases "matchesPattern p a")
    case (Inl e)
    with Cons.prems(1) show ?thesis by simp
  next
    case (Inr b)
    show ?thesis
    proof (cases b)
      case True
      with Inr show ?thesis by simp
    next
      case False
      with Inr Cons.prems have "\<exists>pat \<in> set pats. matchesPattern p pat = Inr True"
        by auto
      with Cons.IH Cons.prems(1) have "matches_some p pats = Inr True" by simp
      with Inr False show ?thesis by simp
    qed
  qed
qed

lemma matches_some_False:
  "\<forall>pat \<in> set pats. matchesPattern p pat = Inr False \<Longrightarrow> matches_some p pats = Inr False"
  by (induction pats) simp_all

text \<open>
  Claim C1, as the program has it: under the default configuration the path
  \<^verbatim>\<open>node_modules/foo/bar.js\<close> is accepted. The exclude pattern \<^verbatim>\<open>**/node_modules/**\<close>
  becomes the expression \<^verbatim>\<open>.[^/]*/node_modules/.[^/]*\<close>, which does not match the path
  (nothing stands before \<^verbatim>\<open>node_modules\<close>), no other exclude pattern matches it, and
  the include pattern \<^verbatim>\<open>**/*.js\<close> does.
\<close>

theorem node_modules_path_accepted:
  "glob_to_regex ''**/node_modules/**'' = ''.[^/]*/node_modules/.[^/]*'' \<and>
   matchesPattern ''node_modules/foo/bar.js'' ''**/node_modules/**'' = Inr False \<and>
   matches_some ''node_modules/foo/bar.js'' (excludePatterns default_config) = Inr False \<and>
   glob_to_regex ''**/*.js'' = ''.[^/]*/[^/]*.js'' \<and>
   matchesPattern ''node_modules/foo/bar.js'' ''**/*.js'' = Inr True \<and>
   shouldProcessFile default_config ''node_modules/foo/bar.js'' = Inr True"
  by code_simp

text \<open>
  Claim C5: exclusion wins and the default is to deny. When every exclude pattern
  compiles and one of them matches the path, \<open>shouldProcessFile\<close> returns false
  whatever the include patterns are (they are not even compiled); when every pattern
  of both lists compiles and does not match, it returns false.
\<close>

theorem exclusion_wins_and_default_deny:
  "((\<forall>pat \<in> set (excludePatterns config). \<not> isl (matchesPattern p pat)) \<and>
    (\<exists>pat \<in> set (excludePatterns config). matchesPattern p pat = Inr True)
      \<longrightarrow> shouldProcessFile config p = Inr False) \<and>
   ((\<forall>pat \<in> set (excludePatterns config @ includePatterns config).
        matchesPattern p pat = Inr False)
      \<longrightarrow> shouldProcessFile config p = Inr False)"
proof (intro conjI impI)
  assume "(\<forall>pat \<in> set (excludePatterns config). \<not> isl (matchesPattern p pat)) \<and>
    (\<exists>pat \<in> set (excludePatterns config). matchesPattern p pat = Inr True)"
  then have "matches_some p (excludePatterns config) = Inr True"
    using matches_some_True by blast
  then show "shouldProcessFile config p = Inr False"
    by (simp add: shouldProcessFile_def)
next
  assume a: "\<forall>pat \<in> set (excludePatterns config @ includePatterns config).
        matchesPattern p pat = Inr False"
  then have "matches_some p (excludePatterns config) = Inr False"
    by (intro matches_some_False) simp
  moreover from a have "matches_some p (includePatterns config) = Inr False"
    by (intro matches_some_False) simp
  ultimately show "shouldProcessFile config p = Inr False"
    by (simp add: shouldProcessFile_def)
qed

theorem exclusion_wins_and_default_deny_witness:
  "list_all (\<lambda>pat. \<not> isl (matchesPattern ''a/node_modules/x.js'' pat)) (excludePatterns default_config) \<and>
   (\<exists>pat \<in> set (excludePatterns default_config). matchesPattern ''a/node_modules/x.js'' pat = Inr True) \<and>
   (\<exists>pat \<in> set (includePatterns default_config). matchesPattern ''a/node_modules/x.js'' pat = Inr True) \<and>
   shouldProcessFile default_config ''a/node_modules/x.js'' = Inr False \<and>
   list_all (\<lambda>pat. matchesPattern ''Makefile'' pat = Inr False)
     (excludePatterns default_config @ includePatterns default_config) \<and>
   shouldProcessFile default_config ''Makefile'' = Inr False"
proof -
  have h1: "list_all (\<lambda>pat. \<not> isl (matchesPattern ''a/node_modules/x.js'' pat)) (excludePatterns default_config)"
    by code_simp
  have h2: "\<exists>pat \<in> set (excludePatterns default_config). matchesPattern ''a/node_modules/x.js'' pat = Inr True"
    by code_simp
  have h3: "\<exists>pat \<in> set (includePatterns default_config). matchesPattern ''a/node_modules/x.js'' pat = Inr True"
    by code_simp
  have h4: "list_all (\<lambda>pat. matchesPattern ''Makefile'' pat = Inr False)
     (excludePatterns default_config @ includePatterns default_config)"
    by code_simp
  from h1 h2 h4
    exclusion_wins_and_default_deny [of default_config "''a/node_modules/x.js''"]
    exclusion_wins_and_default_deny [of default_config "''Makefile''"]
  have "shouldProcessFile default_config ''a/node_modules/x.js'' = Inr False"
    and "shouldProcessFile default_config ''Makefile'' = Inr False"
    unfolding list_all_iff by blast+
  with h1 h2 h3 h4 show ?thesis by blast
qed

text \<open>
  Claim C10: \<open>generateId\<close> is not injective. Moving a part of the name across the
  separator, or changing one character that is not a letter or digit into another,
  gives the same id.
\<close>

theorem generateId_not_injective:
  "generateId ''a'' ''b_c'' = generateId ''a_b'' ''c'' \<and>
   generateId ''r'' ''a/b.ts'' = generateId ''r'' ''a.b/ts'' \<and>
   (\<exists>r p r' p'. (r, p) \<noteq> (r', p') \<and> generateId r p = generateId r' p')"
proof -
  have 1: "generateId ''a'' ''b_c'' = generateId ''a_b'' ''c''" by code_simp
  have 2: "generateId ''r'' ''a/b.ts'' = generateId ''r'' ''a.b/ts''" by code_simp
  have "(''a'', ''b_c'') \<noteq> (''a_b'', ''c'')" by simp
  with 1 have "\<exists>r p r' p'. (r, p) \<noteq> (r', p') \<and> generateId r p = generateId r' p'" by blast
  with 1 2 show ?thesis by blast
qed

section \<open>Properties of the chunker\<close>

lemma split_lines_nonempty: "split_lines s \<noteq> []"
  by (induction s) (auto split: list.splits)



lemma trimEnd_id: "s \<noteq> [] \<Longrightarrow> \<not> isSpace (last s) \<Longrightarrow> trimEnd s = s"
  by (cases s rule: rev_cases) (auto simp: trimEnd_def)














text \<open>
  Claim C6: the chunker never returns an empty sequence; when the lines yield no
  chunk, it returns the one chunk that is the content unchanged.
\<close>

theorem splitContent_never_empty:
  "splitContent text \<noteq> [] \<and>
   (line_chunks text = [] \<longrightarrow> splitContent text = [text])"
  by (simp add: splitContent_def)

theorem splitContent_never_empty_witness:
  "line_chunks [] = [] \<and> splitContent [] = [''''] \<and>
   line_chunks ('' '' @ [LF] @ ''  '') = [] \<and>
   splitContent ('' '' @ [LF] @ ''  '') = ['' '' @ [LF] @ ''  '']"
proof -
  have 1: "line_chunks [] = []" by code_simp
  have 2: "line_chunks ('' '' @ [LF] @ ''  '') = []" by code_simp
  from 1 2 splitContent_never_empty [of "[]"]
    splitContent_never_empty [of "'' '' @ [LF] @ ''  ''"]
  show ?thesis by simp
qed

section \<open>Properties of the matcher\<close>

lemma rmatch_defines:
  "rmatch k s c = Some (s', c') \<Longrightarrow> c n \<noteq> None \<or> (\<exists>f \<in> set k. fdef n f) \<Longrightarrow> c' n \<noteq> None"
  by (induction k s c rule: rmatch.induct) (auto split: list.splits option.splits if_splits)

lemma rmatch_keeps:
  "rmatch k s c = Some (s', c') \<Longrightarrow> \<forall>f \<in> set k. ffree n f \<Longrightarrow> c' n = c n"
  by (induction k s c rule: rmatch.induct) (auto split: list.splits option.splits if_splits)

lemma exec_at_SomeD:
  "exec_at r s = Some m \<Longrightarrow>
   \<exists>s' c. rmatch [R r] s Map.empty = Some (s', c) \<and>
     m = \<lparr>matched = take (length s - length s') s, rest = s', groups = c\<rparr>"
  by (auto simp: exec_at_def split: option.splits)

lemma exec_at_defines: "exec_at r s = Some m \<Longrightarrow> rdef n r \<Longrightarrow> groups m n \<noteq> None"
proof -
  assume a: "exec_at r s = Some m" and d: "rdef n r"
  from a obtain s' c where 1: "rmatch [R r] s Map.empty = Some (s', c)" and 2: "groups m = c"
    by (auto dest: exec_at_SomeD)
  from d have "\<exists>f \<in> set [R r]. fdef n f" by simp
  with rmatch_defines [OF 1, of n] have "c n \<noteq> None" by blast
  with 2 show ?thesis by simp
qed

lemma matchAll_mem: "m \<in> set (matchAll r s) \<Longrightarrow> \<exists>s'. exec_at r s' = Some m"
proof (induction r s rule: matchAll.induct)
  case (1 r)
  then show ?case by (auto split: option.splits)
next
  case (2 r x xs)
  then show ?case by (auto split: option.splits if_splits)
qed

lemma search_mem: "search r s = Some m \<Longrightarrow> \<exists>s'. exec_at r s' = Some m"
  by (induction s) (auto split: option.splits)

lemma push_all_Inr:
  "\<forall>m \<in> set ms. \<exists>g. f m = Inr g \<Longrightarrow> \<exists>gs. push_all f ms = Inr gs"
proof (induction ms)
  case Nil
  then show ?case by simp
next
  case (Cons m ms)
  then obtain g gs where "f m = Inr g" and "push_all f ms = Inr gs" by auto
  then show ?case by simp
qed

lemma group_Inr: "groups m n \<noteq> None \<Longrightarrow> \<exists>g. group m n = Inr g"
  by (auto simp: group_def)

lemma scan_Inr:
  assumes "rdef n r"
  shows "\<exists>gs. push_all (\<lambda>m. group m n) (matchAll r s) = Inr gs"
proof (rule push_all_Inr, rule ballI)
  fix m assume "m \<in> set (matchAll r s)"
  then obtain s' where "exec_at r s' = Some m" by (auto dest: matchAll_mem)
  then have "groups m n \<noteq> None" using assms by (rule exec_at_defines)
  then show "\<exists>g. group m n = Inr g" by (rule group_Inr)
qed

lemma rdef_re_class: "rdef 1 re_class"
  by (simp add: re_class_def)

lemma rdef_re_export: "rdef 1 re_export"
  by (simp add: re_export_def)

lemma rdef_re_py_function: "rdef 1 re_py_function"
  by (simp add: re_py_function_def)

lemma rdef_re_import_from: "rdef 1 re_import_from"
  by (simp add: re_import_from_def)

lemma rdef_re_java_import: "rdef 1 re_java_import"
  by (simp add: re_java_import_def)

lemma rdef_re_block_comment: "rdef 1 re_block_comment"
  by (simp add: re_block_comment_def)

lemma class_scan_Inr: "\<exists>names. class_scan s = Inr names"
  unfolding class_scan_def using rdef_re_class by (rule scan_Inr)

lemma extractClasses_twice:
  "\<exists>names. class_scan s = Inr names \<and> extractClasses s = Inr (names @ names)"
proof -
  obtain names where "class_scan s = Inr names" using class_scan_Inr by blast
  then show ?thesis by (simp add: extractClasses_def)
qed

lemma extractExports_Inr: "\<exists>xs. extractExports s = Inr xs"
  unfolding extractExports_def using rdef_re_export by (rule scan_Inr)

lemma extractFunctions_Inr: "\<exists>xs. extractFunctions s = Inr xs"
proof -
  obtain py where "push_all (\<lambda>m. group m 1) (matchAll re_py_function s) = Inr py"
    using scan_Inr [OF rdef_re_py_function] by blast
  then show ?thesis by (simp add: extractFunctions_def)
qed

lemma extractFirstComment_Inr: "\<exists>fc. extractFirstComment s = Inr fc"
proof (cases "search re_block_comment s")
  case None
  then show ?thesis by (simp add: extractFirstComment_def Let_def)
next
  case (Some m)
  then obtain s' where "exec_at re_block_comment s' = Some m" by (auto dest: search_mem)
  then have "groups m 1 \<noteq> None" using rdef_re_block_comment by (rule exec_at_defines)
  then obtain g where "group m 1 = Inr g" using group_Inr by blast
  with Some show ?thesis by (simp add: extractFirstComment_def)
qed

lemma generateSummary_cases:
  "extractFirstComment s = Inr fc \<Longrightarrow>
   generateSummary s =
     Inr (if truthy_opt fc then str_or fc []
          else take 200 (join '' '' (take 3 (filter (\<lambda>line. length (trim line) > 0) (split_lines s)))))"
  by (simp add: generateSummary_def Let_def)

lemma generateSummary_Inr: "\<exists>x. generateSummary s = Inr x"
proof -
  obtain fc where "extractFirstComment s = Inr fc" using extractFirstComment_Inr by blast
  then show ?thesis by (simp add: generateSummary_cases)
qed

lemma postI: "(\<And>s c s' c'. rmatch k s c = Some (s', c') \<Longrightarrow> Q c') \<Longrightarrow> post k Q"
  by (simp add: post_def)

lemma postD: "post k Q \<Longrightarrow> rmatch k s c = Some (s', c') \<Longrightarrow> Q c'"
  by (auto simp: post_def)

lemma post_Chr: "post k Q \<Longrightarrow> post (R (Chr cl) # k) Q"
proof (rule postI)
  fix s c s' c'
  assume p: "post k Q" and m: "rmatch (R (Chr cl) # k) s c = Some (s', c')"
  show "Q c'"
  proof (cases s)
    case Nil
    with m show ?thesis by simp
  next
    case (Cons x xs)
    with m have "rmatch k xs c = Some (s', c')" by (simp split: if_splits)
    with p show ?thesis by (rule postD)
  qed
qed

lemma post_Star: "post k Q \<Longrightarrow> post (R (Star cl) # k) Q"
proof (rule postI)
  fix s c s' c'
  assume p: "post k Q"
  show "rmatch (R (Star cl) # k) s c = Some (s', c') \<Longrightarrow> Q c'"
  proof (induction s)
    case Nil
    then have "rmatch k [] c = Some (s', c')" by simp
    with p show ?case by (rule postD)
  next
    case (Cons x xs)
    then have "rmatch (R (Star cl) # k) xs c = Some (s', c') \<or> rmatch k (x # xs) c = Some (s', c')"
      by (simp split: if_splits option.splits)
    then show ?case using Cons.IH p by (auto dest: postD)
  qed
qed

lemma post_LazyStar: "post k Q \<Longrightarrow> post (R (LazyStar cl) # k) Q"
proof (rule postI)
  fix s c s' c'
  assume p: "post k Q"
  show "rmatch (R (LazyStar cl) # k) s c = Some (s', c') \<Longrightarrow> Q c'"
  proof (induction s)
    case Nil
    then have "rmatch k [] c = Some (s', c')" by simp
    with p show ?case by (rule postD)
  next
    case (Cons x xs)
    then have "rmatch (R (LazyStar cl) # k) xs c = Some (s', c') \<or> rmatch k (x # xs) c = Some (s', c')"
      by (simp split: if_splits option.splits)
    then show ?case using Cons.IH p by (auto dest: postD)
  qed
qed

lemma post_Eps: "post k Q \<Longrightarrow> post (R Eps # k) Q"
  by (simp add: post_def)

lemma post_Seq: "post (R a # R b # k) Q \<Longrightarrow> post (R (Seq a b) # k) Q"
  by (simp add: post_def)

lemma post_Alt: "post (R a # k) Q \<Longrightarrow> post (R b # k) Q \<Longrightarrow> post (R (Alt a b) # k) Q"
  unfolding post_def by (auto split: option.splits)

lemma post_weaken: "post k P \<Longrightarrow> (\<And>c. P c \<Longrightarrow> Q c) \<Longrightarrow> post k Q"
  by (auto simp: post_def)

lemma post_lits: "post k Q \<Longrightarrow> post (R (lits w) # k) Q"
proof (induction w arbitrary: k)
  case Nil
  then show ?case by (simp add: post_Eps)
next
  case (Cons x w)
  from Cons.prems have "post (R (lits w) # k) Q" by (rule Cons.IH)
  then have "post (R (Chr (Lit x)) # R (lits w) # k) Q" by (rule post_Chr)
  then show ?case by (simp add: post_Seq)
qed

lemma post_Plus: "post k Q \<Longrightarrow> post (R (Plus cl) # k) Q"
  unfolding Plus_def by (intro post_Seq post_Chr post_Star)

lemma post_defines: "\<exists>f \<in> set k. fdef n f \<Longrightarrow> post k (\<lambda>c. c n \<noteq> None)"
proof (rule postI)
  fix s c s' c'
  assume "\<exists>f \<in> set k. fdef n f" and "rmatch k s c = Some (s', c')"
  with rmatch_defines [of k s c s' c' n] show "c' n \<noteq> None" by blast
qed

lemma close_nonempty:
  assumes m: "rmatch (Close n s0 # k) s c = Some (s', c')"
    and len: "length s < length s0" and free: "\<forall>f \<in> set k. ffree n f"
  shows "nonempty_group n c'"
proof -
  let ?c = "c(n \<mapsto> take (length s0 - length s) s0)"
  from m have "rmatch k s ?c = Some (s', c')" by simp
  then have "c' n = ?c n" using free by (rule rmatch_keeps)
  moreover from len have "take (length s0 - length s) s0 \<noteq> []" by auto
  ultimately show ?thesis by (simp add: nonempty_group_def)
qed

lemma star_close_nonempty:
  "rmatch (R (Star cl) # Close n s0 # k) s c = Some (s', c') \<Longrightarrow>
   length s < length s0 \<Longrightarrow> \<forall>f \<in> set k. ffree n f \<Longrightarrow> nonempty_group n c'"
proof (induction s)
  case Nil
  then have "rmatch (Close n s0 # k) [] c = Some (s', c')" by simp
  then show ?case using Nil.prems(2,3) by (rule close_nonempty)
next
  case (Cons x xs)
  from Cons.prems(1)
  have "rmatch (R (Star cl) # Close n s0 # k) xs c = Some (s', c')
      \<or> rmatch (Close n s0 # k) (x # xs) c = Some (s', c')"
    by (simp split: if_splits option.splits del: rmatch.simps(12))
  then show ?case
  proof
    assume "rmatch (R (Star cl) # Close n s0 # k) xs c = Some (s', c')"
    moreover from Cons.prems(2) have "length xs < length s0" by simp
    ultimately show ?thesis using Cons.prems(3) by (rule Cons.IH)
  next
    assume "rmatch (Close n s0 # k) (x # xs) c = Some (s', c')"
    then show ?thesis using Cons.prems(2,3) by (rule close_nonempty)
  qed
qed

lemma post_Group_Plus:
  assumes free: "\<forall>f \<in> set k. ffree n f"
  shows "post (R (Group n (Plus cl)) # k) (nonempty_group n)"
proof (rule postI)
  fix s c s' c'
  assume m: "rmatch (R (Group n (Plus cl)) # k) s c = Some (s', c')"
  show "nonempty_group n c'"
  proof (cases s)
    case Nil
    with m show ?thesis by (simp add: Plus_def)
  next
    case (Cons x xs)
    with m have "rmatch (R (Star cl) # Close n (x # xs) # k) xs c = Some (s', c')"
      by (simp add: Plus_def split: if_splits del: rmatch.simps(12))
    moreover have "length xs < length (x # xs)" by simp
    ultimately show ?thesis using free by (rule star_close_nonempty)
  qed
qed

lemma python_import_groups:
  "post [R re_python_import] (\<lambda>c. nonempty_group 1 c \<or> c 2 \<noteq> None)"
  unfolding re_python_import_def
proof (rule post_Alt)
  have "post [R (Group 1 (Plus (Neg Space))), R (Seq (Plus Space) (lits ''import''))] (nonempty_group 1)"
    by (rule post_Group_Plus) (simp add: Plus_def)
  then have "post [R (Seq (lits ''from'') (Seq (Plus Space) (Seq (Group 1 (Plus (Neg Space)))
            (Seq (Plus Space) (lits ''import'')))))] (nonempty_group 1)"
    by (intro post_Seq post_lits post_Plus)
  then show "post [R (Seq (lits ''from'') (Seq (Plus Space) (Seq (Group 1 (Plus (Neg Space)))
            (Seq (Plus Space) (lits ''import'')))))] (\<lambda>c. nonempty_group 1 c \<or> c 2 \<noteq> None)"
    by (rule post_weaken) simp
next
  have "post [R (Seq (lits ''import'') (Seq (Plus Space) (Group 2 (Plus (Neg Space)))))] (\<lambda>c. c 2 \<noteq> None)"
    by (rule post_defines) simp
  then show "post [R (Seq (lits ''import'') (Seq (Plus Space) (Group 2 (Plus (Neg Space)))))]
     (\<lambda>c. nonempty_group 1 c \<or> c 2 \<noteq> None)"
    by (rule post_weaken) simp
qed

lemma python_import_Inr:
  assumes "exec_at re_python_import s = Some m"
  shows "\<exists>g. (case js_or (groups m 1) (groups m 2) of
                 None \<Rightarrow> Inl UndefinedCapture | Some g \<Rightarrow> Inr g) = Inr g"
proof -
  from assms obtain s' c where 1: "rmatch [R re_python_import] s Map.empty = Some (s', c)"
    and 2: "groups m = c"
    by (auto dest: exec_at_SomeD)
  from python_import_groups 1 have "nonempty_group 1 c \<or> c 2 \<noteq> None" by (rule postD)
  with 2 have "js_or (groups m 1) (groups m 2) \<noteq> None"
    by (auto simp: js_or_def nonempty_group_def truthy_def split: option.splits)
  then show ?thesis by (auto split: option.splits)
qed

lemma extractDependencies_Inr: "\<exists>deps. extractDependencies s = Inr deps"
proof -
  obtain a where a: "push_all (\<lambda>m. group m 1) (matchAll re_import_from s) = Inr a"
    using scan_Inr [OF rdef_re_import_from] by blast
  have "\<exists>b. push_all (\<lambda>m. case js_or (groups m 1) (groups m 2) of
                             None \<Rightarrow> Inl UndefinedCapture | Some g \<Rightarrow> Inr g)
             (matchAll re_python_import s) = Inr b"
  proof (rule push_all_Inr, rule ballI)
    fix m assume "m \<in> set (matchAll re_python_import s)"
    then obtain s' where "exec_at re_python_import s' = Some m" by (auto dest: matchAll_mem)
    then show "\<exists>g. (case js_or (groups m 1) (groups m 2) of
                 None \<Rightarrow> Inl UndefinedCapture | Some g \<Rightarrow> Inr g) = Inr g"
      by (rule python_import_Inr)
  qed
  then obtain b where b: "push_all (\<lambda>m. case js_or (groups m 1) (groups m 2) of
                             None \<Rightarrow> Inl UndefinedCapture | Some g \<Rightarrow> Inr g)
             (matchAll re_python_import s) = Inr b" by blast
  obtain c where c: "push_all (\<lambda>m. group m 1) (matchAll re_java_import s) = Inr c"
    using scan_Inr [OF rdef_re_java_import] by blast
  from a b c show ?thesis by (simp add: extractDependencies_def)
qed

lemma frameworks_compile:
  "list_all (\<lambda>(name, patterns). list_all (\<lambda>p. \<not> isl (RegExp p True)) patterns) frameworks"
  by code_simp

lemma some_pattern_Inr:
  "list_all (\<lambda>p. \<not> isl (RegExp p True)) patterns \<Longrightarrow> \<exists>b. some_pattern s patterns = Inr b"
proof (induction patterns)
  case Nil
  show ?case by (rule exI [of _ False]) simp
next
  case (Cons p patterns)
  then obtain r where "RegExp p True = Inr r" by (cases "RegExp p True") auto
  with Cons show ?case by auto
qed

lemma first_framework_Inr:
  "list_all (\<lambda>(name, patterns). list_all (\<lambda>p. \<not> isl (RegExp p True)) patterns) fs \<Longrightarrow>
   \<exists>v. first_framework s fs = Inr v"
proof (induction fs)
  case Nil
  then show ?case by simp
next
  case (Cons f fs)
  obtain name patterns where f: "f = (name, patterns)" by (cases f)
  with Cons.prems have "list_all (\<lambda>p. \<not> isl (RegExp p True)) patterns" by simp
  then obtain b where "some_pattern s patterns = Inr b" using some_pattern_Inr by blast
  with Cons f show ?case by simp
qed

lemma detectFramework_Inr: "\<exists>v. detectFramework s = Inr v"
  unfolding detectFramework_def using frameworks_compile by (rule first_framework_Inr)

lemma default_patterns_compile:
  "list_all (\<lambda>pat. \<not> isl (RegExp (glob_to_regex pat) False))
     (excludePatterns default_config @ includePatterns default_config)"
  by code_simp

lemma matches_some_Inr:
  "list_all (\<lambda>pat. \<not> isl (RegExp (glob_to_regex pat) False)) pats \<Longrightarrow>
   \<exists>b. matches_some p pats = Inr b"
proof (induction pats)
  case Nil
  show ?case by (rule exI [of _ False]) simp
next
  case (Cons pat pats)
  then obtain r where "RegExp (glob_to_regex pat) False = Inr r"
    by (cases "RegExp (glob_to_regex pat) False") auto
  with Cons show ?case by (auto simp: matchesPattern_def)
qed

lemma shouldProcessFile_default_Inr: "\<exists>b. shouldProcessFile default_config p = Inr b"
proof -
  from default_patterns_compile
  have e: "list_all (\<lambda>pat. \<not> isl (RegExp (glob_to_regex pat) False)) (excludePatterns default_config)"
    and i: "list_all (\<lambda>pat. \<not> isl (RegExp (glob_to_regex pat) False)) (includePatterns default_config)"
    by simp_all
  obtain b1 where 1: "matches_some p (excludePatterns default_config) = Inr b1"
    using matches_some_Inr [OF e] by blast
  obtain b2 where 2: "matches_some p (includePatterns default_config) = Inr b2"
    using matches_some_Inr [OF i] by blast
  from 1 2 show ?thesis by (auto simp: shouldProcessFile_def)
qed

lemma analyzeContent_Inr: "\<exists>a. analyzeContent s type = Inr a"
proof -
  obtain fw where 1: "detectFramework s = Inr fw" using detectFramework_Inr by blast
  obtain deps where 2: "extractDependencies s = Inr deps" using extractDependencies_Inr by blast
  obtain exps where 3: "extractExports s = Inr exps" using extractExports_Inr by blast
  obtain funs where 4: "extractFunctions s = Inr funs" using extractFunctions_Inr by blast
  obtain names where 5: "extractClasses s = Inr (names @ names)" using extractClasses_twice by blast
  obtain summ where 6: "generateSummary s = Inr summ" using generateSummary_Inr by blast
  from 1 2 3 4 5 6 show ?thesis by (simp add: analyzeContent_def extractImports_def)
qed

lemma extractKnowledge_ineligible:
  "shouldProcessFile default_config (FileInfo.filePath fi) = Inr False \<Longrightarrow>
   extractKnowledge lib default_config fi = Inr None"
  by (simp add: extractKnowledge_def)

lemma extractKnowledge_eligible:
  assumes "shouldProcessFile default_config (FileInfo.filePath fi) = Inr True"
  shows "\<exists>analysis.
         analyzeContent (FileInfo.content fi) (getFileType lib (FileInfo.filePath fi)) = Inr analysis \<and>
         extractKnowledge lib default_config fi =
           Inr (Some \<lparr>
             item_id = generateId (FileInfo.repository fi) (FileInfo.filePath fi),
             title = generateTitle lib (FileInfo.filePath fi) analysis,
             content = prepareContent (FileInfo.content fi) analysis (FileInfo.filePath fi),
             metadata = \<lparr>
               repository = FileInfo.repository fi,
               filePath = FileInfo.filePath fi,
               fileType = getFileType lib (FileInfo.filePath fi),
               lastModified = FileInfo.lastModified fi,
               contentHash = md5_hex lib (FileInfo.content fi),
               tags = generateTags (FileInfo.filePath fi) analysis,
               language = Analysis.language analysis,
               framework = Analysis.framework analysis,
               dependencies = Analysis.dependencies analysis \<rparr> \<rparr>)"
proof -
  obtain a where "analyzeContent (FileInfo.content fi) (getFileType lib (FileInfo.filePath fi)) = Inr a"
    using analyzeContent_Inr by blast
  with assms show ?thesis by (simp add: extractKnowledge_def Let_def)
qed

section \<open>Properties of the knowledge extractor\<close>

text \<open>
  Claim C9: \<open>extractClasses\<close> returns the names of one scan for \<^verbatim>\<open>class <name>\<close>
  followed by the names of the same scan again: the result has even length, its
  second half is its first half, and every name in it occurs at least twice.
\<close>

theorem extractClasses_two_scans:
  "\<exists>names. class_scan text = Inr names \<and>
     extractClasses text = Inr (names @ names) \<and>
     even (length (names @ names)) \<and>
     drop (length (names @ names) div 2) (names @ names) =
       take (length (names @ names) div 2) (names @ names) \<and>
     (\<forall>n \<in> set (names @ names). 2 \<le> count_list (names @ names) n)"
proof -
  obtain names where n: "class_scan text = Inr names" "extractClasses text = Inr (names @ names)"
    using extractClasses_twice by blast
  have h: "length (names @ names) div 2 = length names" by simp
  have "\<forall>n \<in> set (names @ names). 2 \<le> count_list (names @ names) n"
  proof
    fix x assume "x \<in> set (names @ names)"
    then have "x \<in> set names" by simp
    then have "count_list names x \<noteq> 0" by (simp add: count_list_0_iff)
    then have "1 \<le> count_list names x" by simp
    then show "2 \<le> count_list (names @ names) x" by simp
  qed
  moreover have "even (length (names @ names))" by simp
  moreover have "drop (length (names @ names) div 2) (names @ names) =
       take (length (names @ names) div 2) (names @ names)"
    unfolding h by simp
  ultimately show ?thesis using n by blast
qed

theorem extractClasses_two_scans_witness:
  "class_scan ''class Foo {} class Bar'' = Inr [''Foo'', ''Bar''] \<and>
   extractClasses ''class Foo {} class Bar'' = Inr [''Foo'', ''Bar'', ''Foo'', ''Bar''] \<and>
   count_list [''Foo'', ''Bar'', ''Foo'', ''Bar''] ''Foo'' = 2"
proof -
  have 1: "class_scan ''class Foo {} class Bar'' = Inr [''Foo'', ''Bar'']" by code_simp
  from extractClasses_two_scans [of "''class Foo {} class Bar''"] 1
  have "extractClasses ''class Foo {} class Bar'' = Inr [''Foo'', ''Bar'', ''Foo'', ''Bar'']"
    by auto
  with 1 show ?thesis by simp
qed

text \<open>
  Claim C3 as stated fails: a first comment is returned whole. A line comment of 201
  characters is a summary of 201 characters.
\<close>

theorem generateSummary_comment_not_truncated:
  "generateSummary (''// '' @ replicate 201 CHR ''a'') = Inr (replicate 201 CHR ''a'') \<and>
   length (replicate 201 CHR ''a'') = 201"
proof -
  have "generateSummary (''// '' @ replicate 201 CHR ''a'') = Inr (replicate 201 CHR ''a'')"
    by code_simp
  then show ?thesis by simp
qed

text \<open>
  Claim C3, amended: \<open>generateSummary\<close> always returns a summary; when
  \<open>extractFirstComment\<close> finds no comment, or an empty one, the summary has at most 200
  characters, and otherwise the summary is the first comment.
\<close>

theorem generateSummary_length:
  "(\<exists>summ. generateSummary text = Inr summ) \<and>
   (\<forall>fc summ. extractFirstComment text = Inr fc \<and> generateSummary text = Inr summ \<longrightarrow>
      (if truthy_opt fc then fc = Some summ else length summ \<le> 200))"
proof (intro conjI allI impI)
  show "\<exists>summ. generateSummary text = Inr summ" by (rule generateSummary_Inr)
next
  fix fc summ
  assume a: "extractFirstComment text = Inr fc \<and> generateSummary text = Inr summ"
  then have "Inr summ =
     (Inr (if truthy_opt fc then str_or fc []
          else take 200 (join '' '' (take 3 (filter (\<lambda>line. length (trim line) > 0) (split_lines text))))) :: error + string)"
    using generateSummary_cases [of "text" fc] by simp
  then show "if truthy_opt fc then fc = Some summ else length summ \<le> 200"
    by (auto simp: truthy_opt_def str_or_def split: option.splits if_splits)
qed

theorem generateSummary_length_witness:
  "extractFirstComment ''x = 1'' = Inr None \<and> generateSummary ''x = 1'' = Inr ''x = 1'' \<and>
   length ''x = 1'' \<le> 200 \<and>
   extractFirstComment ''// hello'' = Inr (Some ''hello'') \<and> generateSummary ''// hello'' = Inr ''hello''"
proof -
  have 1: "extractFirstComment ''x = 1'' = Inr None" by code_simp
  have 2: "generateSummary ''x = 1'' = Inr ''x = 1''" by code_simp
  have 3: "extractFirstComment ''// hello'' = Inr (Some ''hello'')" by code_simp
  have 4: "generateSummary ''// hello'' = Inr ''hello''" by code_simp
  from generateSummary_length [of "''x = 1''"] 1 2 have "length ''x = 1'' \<le> 200"
    by (auto simp: truthy_opt_def)
  with 1 2 3 4 show ?thesis by blast
qed

text \<open>
  Claim C2: under the configuration of the constructor, \<open>extractKnowledge\<close> never
  raises; it returns \<^verbatim>\<open>null\<close> exactly when \<open>shouldProcessFile\<close> rejects the path; and
  for an accepted path it returns the item with every field set, whatever the content
  is. The field \<open>framework\<close> holds \<^verbatim>\<open>undefined\<close> (\<open>None\<close>) when no framework is detected.
\<close>

theorem extractKnowledge_null_or_item:
  "(\<exists>r. extractKnowledge lib default_config fi = Inr r) \<and>
   (extractKnowledge lib default_config fi = Inr None
      \<longleftrightarrow> shouldProcessFile default_config (FileInfo.filePath fi) = Inr False) \<and>
   (shouldProcessFile default_config (FileInfo.filePath fi) = Inr True \<longrightarrow>
      (\<exists>analysis.
         analyzeContent (FileInfo.content fi) (getFileType lib (FileInfo.filePath fi)) = Inr analysis \<and>
         extractKnowledge lib default_config fi =
           Inr (Some \<lparr>
             item_id = generateId (FileInfo.repository fi) (FileInfo.filePath fi),
             title = generateTitle lib (FileInfo.filePath fi) analysis,
             content = prepareContent (FileInfo.content fi) analysis (FileInfo.filePath fi),
             metadata = \<lparr>
               repository = FileInfo.repository fi,
               filePath = FileInfo.filePath fi,
               fileType = getFileType lib (FileInfo.filePath fi),
               lastModified = FileInfo.lastModified fi,
               contentHash = md5_hex lib (FileInfo.content fi),
               tags = generateTags (FileInfo.filePath fi) analysis,
               language = Analysis.language analysis,
               framework = Analysis.framework analysis,
               dependencies = Analysis.dependencies analysis \<rparr> \<rparr>)))"
proof -
  obtain b where b: "shouldProcessFile default_config (FileInfo.filePath fi) = Inr b"
    using shouldProcessFile_default_Inr by blast
  show ?thesis
  proof (cases b)
    case True
    with b have e: "shouldProcessFile default_config (FileInfo.filePath fi) = Inr True" by simp
    from extractKnowledge_eligible [OF e, of lib] e show ?thesis by auto
  next
    case False
    with b have e: "shouldProcessFile default_config (FileInfo.filePath fi) = Inr False" by simp
    from extractKnowledge_ineligible [OF e, of lib] e show ?thesis by simp
  qed
qed

theorem extractKnowledge_null_or_item_witness:
  "\<forall>lib.
     shouldProcessFile default_config ''src/a.ts'' = Inr True \<and>
     (\<exists>item. extractKnowledge lib default_config
        \<lparr>FileInfo.repository = ''acme/web'', filePath = ''src/a.ts'',
         content = ''class A {}'', lastModified = 0\<rparr> = Inr (Some item) \<and>
        item_id item = ''acme_web_src_a_ts'' \<and>
        Metadata.filePath (metadata item) = ''src/a.ts'') \<and>
     shouldProcessFile default_config ''Makefile'' = Inr False \<and>
     extractKnowledge lib default_config
        \<lparr>FileInfo.repository = ''acme/web'', filePath = ''Makefile'',
         content = ''all:'', lastModified = 0\<rparr> = Inr None"
proof
  fix lib
  let ?a = "\<lparr>FileInfo.repository = ''acme/web'', filePath = ''src/a.ts'',
         content = ''class A {}'', lastModified = 0\<rparr>"
  let ?b = "\<lparr>FileInfo.repository = ''acme/web'', filePath = ''Makefile'',
         content = ''all:'', lastModified = 0\<rparr>"
  have 1: "shouldProcessFile default_config ''src/a.ts'' = Inr True" by code_simp
  have 2: "shouldProcessFile default_config ''Makefile'' = Inr False" by code_simp
  have 3: "generateId ''acme/web'' ''src/a.ts'' = ''acme_web_src_a_ts''" by code_simp
  from 1 3 extractKnowledge_null_or_item [of lib ?a]
  have "\<exists>item. extractKnowledge lib default_config ?a = Inr (Some item) \<and>
        item_id item = ''acme_web_src_a_ts'' \<and>
        Metadata.filePath (metadata item) = ''src/a.ts''"
    by auto
  moreover from 2 extractKnowledge_null_or_item [of lib ?b]
  have "extractKnowledge lib default_config ?b = Inr None" by simp
  ultimately show "shouldProcessFile default_config ''src/a.ts'' = Inr True \<and>
     (\<exists>item. extractKnowledge lib default_config ?a = Inr (Some item) \<and>
        item_id item = ''acme_web_src_a_ts'' \<and>
        Metadata.filePath (metadata item) = ''src/a.ts'') \<and>
     shouldProcessFile default_config ''Makefile'' = Inr False \<and>
     extractKnowledge lib default_config ?b = Inr None"
    using 1 2 by blast
qed

section \<open>The content of a knowledge item\<close>

lemma trimEnd_append:
  "trimEnd (v @ t) = (if \<forall>x \<in> set t. isSpace x then trimEnd v else v @ trimEnd t)"
  by (simp add: trimEnd_def dropWhile_append)

lemma trimEnd_last: "trimEnd v \<noteq> [] \<Longrightarrow> \<not> isSpace (last (trimEnd v))"
proof -
  assume a: "trimEnd v \<noteq> []"
  then have n: "dropWhile isSpace (rev v) \<noteq> []" by (simp add: trimEnd_def)
  then have "\<not> isSpace (hd (dropWhile isSpace (rev v)))" by (rule hd_dropWhile)
  with n show ?thesis by (simp add: trimEnd_def last_rev)
qed

lemma trimEnd_all_space: "\<forall>x \<in> set t. isSpace x \<Longrightarrow> trimEnd t = []"
  by (simp add: trimEnd_def)

lemma suffix_trimEnd: "suffix (trimEnd t) (trimEnd (v @ t))"
proof (cases "\<forall>x \<in> set t. isSpace x")
  case True
  then have "trimEnd t = []" by (rule trimEnd_all_space)
  then show ?thesis by simp
next
  case False
  then have "trimEnd (v @ t) = v @ trimEnd t" by (auto simp: trimEnd_append)
  then show ?thesis by (simp add: suffix_def)
qed

lemma not_suffix_trim:
  assumes "s \<noteq> []" and "isSpace (last s)"
  shows "\<not> suffix s (trim u)"
proof
  assume "suffix s (trim u)"
  then obtain p where p: "trim u = p @ s" by (auto simp: suffix_def)
  with assms(1) have "trim u \<noteq> []" and "last (trim u) = last s" by simp_all
  moreover have "trim u \<noteq> [] \<Longrightarrow> \<not> isSpace (last (trim u))"
    unfolding trim_def by (rule trimEnd_last)
  ultimately show False using assms(2) by simp
qed

lemma prepareContent_shape:
  "\<exists>pre. prepareContent text analysis path = trimEnd (CHR ''F'' # pre @ text)"
proof -
  let ?mid = "''ile: '' @ path @ [LF]
       @ ''Language: '' @ Analysis.language analysis @ [LF]
       @ ''Framework: '' @ str_or (Analysis.framework analysis) ''None'' @ [LF]
       @ [LF]
       @ ''Summary: '' @ summary analysis @ [LF]
       @ [LF]
       @ ''Dependencies:'' @ [LF]
       @ join [LF] (map (\<lambda>dep. ''- '' @ dep) (Analysis.dependencies analysis)) @ [LF]
       @ [LF]
       @ ''Functions: '' @ join '', '' (functions' analysis) @ [LF]
       @ ''Classes: '' @ join '', '' (classes analysis) @ [LF]
       @ ''Complexity: '' @ digits (complexity analysis) @ [LF]
       @ [LF]
       @ ''Content:'' @ [LF]"
  have 1: "prepareContent text analysis path = trim (LF # CHR ''F'' # (?mid @ text) @ LF # ''    '')"
    by (simp add: prepareContent_def)
  have 2: "trimStart (LF # CHR ''F'' # (?mid @ text) @ LF # ''    '')
       = CHR ''F'' # (?mid @ text) @ LF # ''    ''"
    by (simp add: trimStart_def isSpace_def LF_def)
  have 3: "trimEnd ((CHR ''F'' # (?mid @ text)) @ LF # ''    '') = trimEnd (CHR ''F'' # (?mid @ text))"
    by (subst trimEnd_append) (simp add: isSpace_def LF_def)
  from 1 2 3 have "prepareContent text analysis path = trimEnd (CHR ''F'' # ?mid @ text)"
    by (simp add: trim_def)
  then show ?thesis by blast
qed

lemma prepareContent_suffix:
  "suffix (trimEnd text) (prepareContent text analysis path)"
proof -
  obtain pre where "prepareContent text analysis path = trimEnd (CHR ''F'' # pre @ text)"
    using prepareContent_shape by blast
  moreover have "suffix (trimEnd text) (trimEnd ((CHR ''F'' # pre) @ text))"
    by (rule suffix_trimEnd)
  ultimately show ?thesis by simp
qed

lemma prepareContent_not_suffix:
  "text \<noteq> [] \<Longrightarrow> isSpace (last text) \<Longrightarrow> \<not> suffix text (prepareContent text analysis path)"
  unfolding prepareContent_def by (rule not_suffix_trim)

text \<open>
  Claim C7 as stated fails: \<open>prepareContent\<close> trims the text it has built, so the white
  space at the end of the file content is lost. For a file whose content is \<^verbatim>\<open>x\<close> and
  a line break, the content of the item does not end with the content of the file.
\<close>

theorem item_content_not_verbatim:
  "\<forall>lib. \<exists>item.
     extractKnowledge lib default_config
       \<lparr>FileInfo.repository = ''acme/web'', filePath = ''src/a.ts'',
        content = ''x'' @ [LF], lastModified = 0\<rparr> = Inr (Some item) \<and>
     \<not> suffix (''x'' @ [LF]) (KnowledgeItem.content item)"
proof
  fix lib
  let ?fi = "\<lparr>FileInfo.repository = ''acme/web'', filePath = ''src/a.ts'',
        content = ''x'' @ [LF], lastModified = 0\<rparr>"
  have e: "shouldProcessFile default_config (FileInfo.filePath ?fi) = Inr True" by code_simp
  have "isSpace (last (''x'' @ [LF]))" by (simp add: isSpace_def LF_def)
  then have "\<And>analysis path. \<not> suffix (''x'' @ [LF]) (prepareContent (''x'' @ [LF]) analysis path)"
    by (intro prepareContent_not_suffix) simp_all
  with extractKnowledge_eligible [OF e, of lib]
  show "\<exists>item. extractKnowledge lib default_config ?fi = Inr (Some item) \<and>
     \<not> suffix (''x'' @ [LF]) (KnowledgeItem.content item)"
    by auto
qed

text \<open>
  Claim C7, amended: for every eligible file, the content of the item ends with the
  content of the file without its trailing white space; when the content of the file
  is not empty and does not end in white space, the content of the item ends with it
  verbatim.
\<close>

theorem item_content_ends_with_trimmed_content:
  assumes "shouldProcessFile default_config (FileInfo.filePath fi) = Inr True"
  shows "\<exists>item. extractKnowledge lib default_config fi = Inr (Some item) \<and>
     suffix (trimEnd (FileInfo.content fi)) (KnowledgeItem.content item) \<and>
     (FileInfo.content fi \<noteq> [] \<and> \<not> isSpace (last (FileInfo.content fi))
        \<longrightarrow> suffix (FileInfo.content fi) (KnowledgeItem.content item))"
proof -
  from extractKnowledge_eligible [OF assms, of lib]
  obtain item analysis where i: "extractKnowledge lib default_config fi = Inr (Some item)"
    and c: "KnowledgeItem.content item =
      prepareContent (FileInfo.content fi) analysis (FileInfo.filePath fi)"
    by auto
  have s: "suffix (trimEnd (FileInfo.content fi)) (KnowledgeItem.content item)"
    unfolding c by (rule prepareContent_suffix)
  have "FileInfo.content fi \<noteq> [] \<and> \<not> isSpace (last (FileInfo.content fi))
        \<longrightarrow> suffix (FileInfo.content fi) (KnowledgeItem.content item)"
  proof
    assume "FileInfo.content fi \<noteq> [] \<and> \<not> isSpace (last (FileInfo.content fi))"
    then have "trimEnd (FileInfo.content fi) = FileInfo.content fi" by (simp add: trimEnd_id)
    with s show "suffix (FileInfo.content fi) (KnowledgeItem.content item)" by simp
  qed
  with i s show ?thesis by blast
qed

theorem item_content_ends_with_trimmed_content_witness:
  "\<forall>lib.
     shouldProcessFile default_config ''src/a.ts'' = Inr True \<and>
     (\<exists>item. extractKnowledge lib default_config
        \<lparr>FileInfo.repository = ''acme/web'', filePath = ''src/a.ts'',
         content = ''class A {}'' @ [LF], lastModified = 0\<rparr> = Inr (Some item) \<and>
        suffix ''class A {}'' (KnowledgeItem.content item))"
proof
  fix lib
  let ?fi = "\<lparr>FileInfo.repository = ''acme/web'', filePath = ''src/a.ts'',
         content = ''class A {}'' @ [LF], lastModified = 0\<rparr>"
  have e: "shouldProcessFile default_config ''src/a.ts'' = Inr True" by code_simp
  then have e': "shouldProcessFile default_config (FileInfo.filePath ?fi) = Inr True" by simp
  have t: "trimEnd (''class A {}'' @ [LF]) = ''class A {}''" by code_simp
  from item_content_ends_with_trimmed_content [OF e', of lib] t
  have "\<exists>item. extractKnowledge lib default_config ?fi = Inr (Some item) \<and>
        suffix ''class A {}'' (KnowledgeItem.content item)"
    by auto
  with e show "shouldProcessFile default_config ''src/a.ts'' = Inr True \<and>
     (\<exists>item. extractKnowledge lib default_config ?fi = Inr (Some item) \<and>
        suffix ''class A {}'' (KnowledgeItem.content item))"
    by blast
qed

section \<open>The complexity score\<close>

lemma count_append:
  assumes P1: "\<And>s t m. exec_at r s = Some m \<Longrightarrow>
                 \<exists>m'. exec_at r (s @ t) = Some m' \<and> rest m' = rest m @ t"
    and P2: "\<And>s m. exec_at r s = Some m \<Longrightarrow> length (rest m) < length s"
    and P3: "\<And>x xs t. exec_at r (x # xs) = None \<Longrightarrow> exec_at r (x # xs @ t) \<noteq> None \<Longrightarrow>
                 matchAll r xs = []"
  shows "length (matchAll r s) \<le> length (matchAll r (s @ t))"
proof (induction s rule: length_induct)
  case (1 s)
  show ?case
  proof (cases s)
    case Nil
    have "exec_at r [] = None"
    proof (cases "exec_at r []")
      case (Some m)
      then have "length (rest m) < length ([]::string)" by (rule P2)
      then show ?thesis by simp
    qed simp
    with Nil show ?thesis by simp
  next
    case (Cons x xs)
    show ?thesis
    proof (cases "exec_at r (x # xs)")
      case (Some m)
      then have l: "length (rest m) < length (x # xs)" by (rule P2)
      from P1 [OF Some, of t] obtain m' where m': "exec_at r (x # xs @ t) = Some m'"
        and r': "rest m' = rest m @ t" by auto
      from l r' have l': "length (rest m') < length (x # xs @ t)" by simp
      from l Cons have "length (matchAll r (rest m)) \<le> length (matchAll r (rest m @ t))"
        using "1.IH" by simp
      moreover from Some l have "matchAll r (x # xs) = m # matchAll r (rest m)" by simp
      moreover from m' l' r' have "matchAll r (x # xs @ t) = m' # matchAll r (rest m @ t)" by simp
      ultimately show ?thesis using Cons by simp
    next
      case None
      then have a: "matchAll r (x # xs) = matchAll r xs" by simp
      show ?thesis
      proof (cases "exec_at r (x # xs @ t)")
        case (Some m')
        with None have "matchAll r xs = []" by (intro P3 [of x xs t]) simp_all
        with a Cons show ?thesis by simp
      next
        case n: None
        then have "matchAll r (x # xs @ t) = matchAll r (xs @ t)" by simp
        moreover from Cons have "length (matchAll r xs) \<le> length (matchAll r (xs @ t))"
          using "1.IH" by simp
        ultimately show ?thesis using a Cons by simp
      qed
    qed
  qed
qed

lemma rmatch_lits:
  "rmatch (R (lits w) # k) s c = (if prefix w s then rmatch k (drop (length w) s) c else None)"
proof (induction w arbitrary: s)
  case Nil
  then show ?case by simp
next
  case (Cons a w)
  show ?case
  proof (cases s)
    case Nil
    then show ?thesis by simp
  next
    case (Cons x xs)
    with Cons.IH [of xs] show ?thesis by auto
  qed
qed

lemma paren_not_space: "\<not> isSpace CHR ''(''"
  by (simp add: isSpace_def)

lemma rmatch_spaces_paren:
  "rmatch [R (Star Space), R (Chr (Lit CHR ''(''))] s c =
     (case dropWhile isSpace s of [] \<Rightarrow> None
      | y # ys \<Rightarrow> if y = CHR ''('' then Some (ys, c) else None)"
proof (induction s)
  case Nil
  then show ?case by simp
next
  case (Cons x xs)
  show ?case
  proof (cases "isSpace x")
    case True
    then have "x \<noteq> CHR ''(''" using paren_not_space by auto
    with True Cons.IH show ?thesis by (simp split: list.splits)
  next
    case False
    then show ?thesis by simp
  qed
qed

lemma case_paren_map:
  "(case xs of [] \<Rightarrow> None | y # ys \<Rightarrow> if y = CHR ''('' then Some (ys, c) else None) =
   map_option (\<lambda>ys. (ys, c))
     (case xs of [] \<Rightarrow> None | y # ys \<Rightarrow> if y = CHR ''('' then Some ys else None)"
  by (cases xs) simp_all

lemma rmatch_keyword:
  "rmatch [R (re_keyword kw)] s c = map_option (\<lambda>ys. (ys, c)) (keyword_rest kw s)"
proof -
  have "rmatch [R (re_keyword kw)] s c =
      rmatch [R (lits kw), R (Seq (Star Space) (Chr (Lit CHR ''('')))] s c"
    by (simp add: re_keyword_def)
  also have "\<dots> = (if prefix kw s
      then rmatch [R (Star Space), R (Chr (Lit CHR ''(''))] (drop (length kw) s) c else None)"
    by (simp add: rmatch_lits)
  also have "\<dots> = map_option (\<lambda>ys. (ys, c)) (keyword_rest kw s)"
    unfolding rmatch_spaces_paren keyword_rest_def case_paren_map by simp
  finally show ?thesis .
qed

lemma exec_at_keyword:
  "exec_at (re_keyword kw) s =
     map_option (\<lambda>ys. \<lparr>matched = take (length s - length ys) s, rest = ys, groups = Map.empty\<rparr>)
       (keyword_rest kw s)"
  unfolding exec_at_def rmatch_keyword by (cases "keyword_rest kw s") simp_all

lemma rmatch_logical:
  "rmatch [R re_logical] s c = map_option (\<lambda>ys. (ys, c)) (logical_rest s)"
proof -
  have "rmatch [R re_logical] s c =
      (case rmatch [R (lits ''&&'')] s c of Some r \<Rightarrow> Some r | None \<Rightarrow> rmatch [R (lits ''||'')] s c)"
    by (simp add: re_logical_def del: lits.simps)
  also have "\<dots> = map_option (\<lambda>ys. (ys, c)) (logical_rest s)"
    unfolding rmatch_lits logical_rest_def by (simp add: numeral_2_eq_2)
  finally show ?thesis .
qed

lemma exec_at_logical:
  "exec_at re_logical s =
     map_option (\<lambda>ys. \<lparr>matched = take (length s - length ys) s, rest = ys, groups = Map.empty\<rparr>)
       (logical_rest s)"
  unfolding exec_at_def rmatch_logical by (cases "logical_rest s") simp_all

lemma keyword_rest_append:
  assumes "keyword_rest kw s = Some ys"
  shows "keyword_rest kw (s @ t) = Some (ys @ t)"
proof -
  from assms have p: "prefix kw s"
    and d: "dropWhile isSpace (drop (length kw) s) = CHR ''('' # ys"
    by (auto simp: keyword_rest_def split: if_splits list.splits)
  from p have p': "prefix kw (s @ t)" by (rule prefix_prefix)
  from p have "length kw \<le> length s" by (rule prefix_length_le)
  then have "drop (length kw) (s @ t) = drop (length kw) s @ t" by simp
  moreover have "dropWhile isSpace (drop (length kw) s @ t)
      = dropWhile isSpace (drop (length kw) s) @ t"
  proof (rule dropWhile_append1)
    from d have "CHR ''('' \<in> set (dropWhile isSpace (drop (length kw) s))" by simp
    then show "CHR ''('' \<in> set (drop (length kw) s)" by (rule set_dropWhileD)
    show "\<not> isSpace CHR ''(''" by (rule paren_not_space)
  qed
  ultimately have "dropWhile isSpace (drop (length kw) (s @ t)) = (CHR ''('' # ys) @ t"
    using d by simp
  with p' show ?thesis by (simp add: keyword_rest_def)
qed

lemma keyword_rest_shorter:
  assumes "keyword_rest kw s = Some ys"
  shows "length ys < length s"
proof -
  from assms have d: "dropWhile isSpace (drop (length kw) s) = CHR ''('' # ys"
    by (auto simp: keyword_rest_def split: if_splits list.splits)
  have "length (dropWhile isSpace (drop (length kw) s)) \<le> length (drop (length kw) s)"
    by (rule length_dropWhile_le)
  with d show ?thesis by simp
qed

lemma keyword_rest_paren:
  assumes "keyword_rest kw s = Some ys"
  shows "CHR ''('' \<in> set s"
proof -
  from assms have d: "dropWhile isSpace (drop (length kw) s) = CHR ''('' # ys"
    by (auto simp: keyword_rest_def split: if_splits list.splits)
  then have "CHR ''('' \<in> set (dropWhile isSpace (drop (length kw) s))" by simp
  then have "CHR ''('' \<in> set (drop (length kw) s)" by (rule set_dropWhileD)
  then show ?thesis by (rule in_set_dropD)
qed

lemma no_paren_no_keyword:
  "CHR ''('' \<notin> set s \<Longrightarrow> matchAll (re_keyword kw) s = []"
proof (induction s)
  case Nil
  have "keyword_rest kw [] = None" by (simp add: keyword_rest_def)
  then show ?case by (simp add: exec_at_keyword)
next
  case (Cons x xs)
  have "keyword_rest kw (x # xs) = None"
  proof (cases "keyword_rest kw (x # xs)")
    case (Some ys)
    then have "CHR ''('' \<in> set (x # xs)" by (rule keyword_rest_paren)
    with Cons.prems show ?thesis by simp
  qed simp
  then have "exec_at (re_keyword kw) (x # xs) = None" by (simp add: exec_at_keyword)
  moreover from Cons have "matchAll (re_keyword kw) xs = []" by simp
  ultimately show ?case by simp
qed

lemma keyword_rest_fresh:
  assumes n: "keyword_rest kw s = None" and m: "keyword_rest kw (s @ t) = Some ys"
    and kw: "CHR ''('' \<notin> set kw"
  shows "CHR ''('' \<notin> set s"
proof (cases "prefix kw s")
  case False
  from m have p': "prefix kw (s @ t)" by (auto simp: keyword_rest_def split: if_splits)
  have "prefix s (s @ t)" by simp
  with p' have "prefix kw s \<or> prefix s kw" by (rule prefix_same_cases)
  with False have "prefix s kw" by simp
  then have "set s \<subseteq> set kw" by (rule set_mono_prefix)
  with kw show ?thesis by auto
next
  case True
  then obtain u where s: "s = kw @ u" by (auto simp: prefix_def)
  from m s have d': "dropWhile isSpace (u @ t) = CHR ''('' # ys"
    by (auto simp: keyword_rest_def split: if_splits list.splits)
  show ?thesis
  proof (cases "\<forall>x \<in> set u. isSpace x")
    case True
    with paren_not_space have "CHR ''('' \<notin> set u" by auto
    with kw s show ?thesis by simp
  next
    case False
    then obtain x where "x \<in> set u" and "\<not> isSpace x" by blast
    then have "dropWhile isSpace (u @ t) = dropWhile isSpace u @ t"
      by (rule dropWhile_append1)
    moreover from False have "dropWhile isSpace u \<noteq> []" by simp
    ultimately have "\<exists>zs. dropWhile isSpace u = CHR ''('' # zs" using d'
      by (cases "dropWhile isSpace u") auto
    with s n show ?thesis by (auto simp: keyword_rest_def)
  qed
qed

lemma count_keyword_append:
  assumes kw: "CHR ''('' \<notin> set kw"
  shows "count_matches (re_keyword kw) s \<le> count_matches (re_keyword kw) (s @ t)"
  unfolding count_matches_def
proof (rule count_append)
  fix s t m assume "exec_at (re_keyword kw) s = Some m"
  then obtain ys where k: "keyword_rest kw s = Some ys" and r: "rest m = ys"
    by (auto simp: exec_at_keyword)
  from k have "keyword_rest kw (s @ t) = Some (ys @ t)" by (rule keyword_rest_append)
  with r show "\<exists>m'. exec_at (re_keyword kw) (s @ t) = Some m' \<and> rest m' = rest m @ t"
    by (simp add: exec_at_keyword)
next
  fix s m assume "exec_at (re_keyword kw) s = Some m"
  then obtain ys where k: "keyword_rest kw s = Some ys" and r: "rest m = ys"
    by (auto simp: exec_at_keyword)
  from k have "length ys < length s" by (rule keyword_rest_shorter)
  with r show "length (rest m) < length s" by simp
next
  fix x xs t
  assume "exec_at (re_keyword kw) (x # xs) = None"
    and "exec_at (re_keyword kw) (x # xs @ t) \<noteq> None"
  then have n: "keyword_rest kw (x # xs) = None"
    and "\<exists>ys. keyword_rest kw ((x # xs) @ t) = Some ys"
    by (auto simp: exec_at_keyword)
  then obtain ys where "keyword_rest kw ((x # xs) @ t) = Some ys" by blast
  with n have "CHR ''('' \<notin> set (x # xs)" using kw by (rule keyword_rest_fresh)
  then have "CHR ''('' \<notin> set xs" by simp
  then show "matchAll (re_keyword kw) xs = []" by (rule no_paren_no_keyword)
qed

lemma count_logical_append:
  "count_matches re_logical s \<le> count_matches re_logical (s @ t)"
  unfolding count_matches_def
proof (rule count_append)
  fix s t m assume "exec_at re_logical s = Some m"
  then have p: "prefix ''&&'' s \<or> prefix ''||'' s" and r: "rest m = drop 2 s"
    by (auto simp: exec_at_logical logical_rest_def split: if_splits)
  from p have p': "prefix ''&&'' (s @ t) \<or> prefix ''||'' (s @ t)" by (auto intro: prefix_prefix)
  from p have "2 \<le> length s" by (auto dest: prefix_length_le)
  then have "drop 2 (s @ t) = drop 2 s @ t" by simp
  with p' r show "\<exists>m'. exec_at re_logical (s @ t) = Some m' \<and> rest m' = rest m @ t"
    by (simp add: exec_at_logical logical_rest_def)
next
  fix s m assume "exec_at re_logical s = Some m"
  then have p: "prefix ''&&'' s \<or> prefix ''||'' s" and r: "rest m = drop 2 s"
    by (auto simp: exec_at_logical logical_rest_def split: if_splits)
  from p have "2 \<le> length s" by (auto dest: prefix_length_le)
  with r show "length (rest m) < length s" by simp
next
  fix x xs t
  assume n: "exec_at re_logical (x # xs) = None"
    and m: "exec_at re_logical (x # xs @ t) \<noteq> None"
  have "xs = []"
  proof (cases xs)
    case (Cons y ys)
    with n m show ?thesis by (auto simp: exec_at_logical logical_rest_def split: if_splits)
  qed simp
  moreover have "exec_at re_logical [] = None" by (simp add: exec_at_logical logical_rest_def)
  ultimately show "matchAll re_logical xs = []" by simp
qed

text \<open>
  Claim C8: appending text to a content string never decreases its complexity score.
\<close>

theorem calculateComplexity_append:
  "calculateComplexity s \<le> calculateComplexity (s @ t)"
proof -
  have "count_matches (re_keyword ''if'') s \<le> count_matches (re_keyword ''if'') (s @ t)"
    by (rule count_keyword_append) simp
  moreover have "count_matches (re_keyword ''for'') s \<le> count_matches (re_keyword ''for'') (s @ t)"
    by (rule count_keyword_append) simp
  moreover have "count_matches (re_keyword ''while'') s \<le> count_matches (re_keyword ''while'') (s @ t)"
    by (rule count_keyword_append) simp
  moreover have "count_matches (re_keyword ''switch'') s \<le> count_matches (re_keyword ''switch'') (s @ t)"
    by (rule count_keyword_append) simp
  moreover have "count_matches (re_keyword ''catch'') s \<le> count_matches (re_keyword ''catch'') (s @ t)"
    by (rule count_keyword_append) simp
  moreover have "count_matches re_logical s \<le> count_matches re_logical (s @ t)"
    by (rule count_logical_append)
  ultimately show ?thesis unfolding calculateComplexity_def by linarith
qed

end
